theory Spec2Isabelle
  imports Complex_Main "HOL-Library.AList"
begin

section \<open>JavaScript values\<close>

text \<open>
  The chat client handles values of type \<open>any\<close>: whatever \<open>JSON.parse\<close> returned
  for a frame of the event stream or for the persisted history. \<open>jsval\<close> is the type of
  these run-time values. \<open>JUndefined\<close> is what reading a missing property gives,
  \<open>JDate v\<close> is the object \<open>new Date(v)\<close>. A number is the rational it denotes; zero is
  the only number that is falsy among those \<open>JSON.parse\<close> can return.
  An object is the list of its own properties, each key once. The code modelled here
  reads properties by their keys and copies objects whole, so the order of the list is
  never observed.
\<close>

datatype jsval =
    JUndefined
  | JNull
  | JBool bool
  | JNum rat
  | JStr string
  | JArr "jsval list"
  | JObj "(string \<times> jsval) list"
  | JDate jsval

text \<open>Truthiness, as \<open>!v\<close>, \<open>a || b\<close> and \<open>if (v)\<close> test it.\<close>

fun truthy :: "jsval \<Rightarrow> bool" where
  "truthy JUndefined = False"
| "truthy JNull = False"
| "truthy (JBool b) = b"
| "truthy (JNum q) = (q \<noteq> 0)"
| "truthy (JStr s) = (s \<noteq> [])"
| "truthy (JArr xs) = True"
| "truthy (JObj kvs) = True"
| "truthy (JDate v) = True"

text \<open>The operator \<open>a || b\<close>.\<close>

definition js_or :: "jsval \<Rightarrow> jsval \<Rightarrow> jsval" where
  "js_or a b = (if truthy a then a else b)"

text \<open>The operator \<open>typeof v\<close>.\<close>

fun js_typeof :: "jsval \<Rightarrow> string" where
  "js_typeof JUndefined = ''undefined''"
| "js_typeof JNull = ''object''"
| "js_typeof (JBool b) = ''boolean''"
| "js_typeof (JNum q) = ''number''"
| "js_typeof (JStr s) = ''string''"
| "js_typeof (JArr xs) = ''object''"
| "js_typeof (JObj kvs) = ''object''"
| "js_typeof (JDate v) = ''object''"

text \<open>
  Reading a property \<open>v.k\<close> of a value that is neither \<open>null\<close> nor \<open>undefined\<close>
  (on those two the read throws a \<open>TypeError\<close>, which every caller below writes out).
  The keys the client reads (\<open>type\<close>, \<open>step\<close>, \<open>content\<close>, \<open>summary\<close>, \<open>answer\<close>,
  \<open>sql_query\<close>, \<open>query_results\<close>, \<open>columns\<close>, \<open>tool\<close>, \<open>input\<close>, \<open>timestamp\<close>) are
  own properties of no string, number, boolean, array or date and are inherited by none,
  so only an object can answer with something else than \<open>undefined\<close>.
\<close>

fun js_get :: "jsval \<Rightarrow> string \<Rightarrow> jsval" where
  "js_get (JObj kvs) k = (case map_of kvs k of None \<Rightarrow> JUndefined | Some v \<Rightarrow> v)"
| "js_get v k = JUndefined"

definition nullish :: "jsval \<Rightarrow> bool" where
  "nullish v = (v = JNull \<or> v = JUndefined)"

text \<open>
  The values that cannot be converted to a primitive: the conversion (\<open>ToPrimitive\<close>,
  as \<open>new Date(v)\<close> and string conversion apply it) throws a \<open>TypeError\<close> on them.
  For an object it calls \<open>valueOf\<close> and \<open>toString\<close>. The inherited \<open>valueOf\<close> returns
  the object itself, which is no primitive, and an own \<open>valueOf\<close> of a parsed object is no
  function; so the conversion rests on \<open>toString\<close>, and it throws exactly when the object
  has an own property \<open>toString\<close>, which hides the inherited function and is none
  itself. An array is converted by joining the conversions of its elements, \<open>null\<close>
  counting as the empty string, and throws when one of them does.
\<close>

fun unconvertible :: "jsval \<Rightarrow> bool" where
  "unconvertible (JObj kvs) = (map_of kvs ''toString'' \<noteq> None)"
| "unconvertible (JArr xs) = list_ex unconvertible xs"
| "unconvertible v = False"

section \<open>Reasoning steps: the validity filter of AgentReasoning\<close>

text \<open>
  \<^verbatim>\<open>
  const isValidStep = (step: any): step is ReasoningStep => {
    if (!step || typeof step !== 'object' || !step.type || typeof step.type !== 'string') {
      return false;
    }
    // More lenient validation - allow action steps with empty input
    if (step.type === 'action') {
      return step.tool !== undefined && step.input !== undefined;
    }
    // For other types, require content
    return step.content !== undefined;
  };
  const validReasoningSteps = reasoningSteps.filter(isValidStep);
  \<close>
  The first test stops at \<open>!step\<close> for \<open>null\<close> and \<open>undefined\<close>, so no property of
  them is read.
\<close>

definition isValidStep :: "jsval \<Rightarrow> bool" where
  "isValidStep step =
     (if \<not> truthy step \<or> js_typeof step \<noteq> ''object''
         \<or> \<not> truthy (js_get step ''type'') \<or> js_typeof (js_get step ''type'') \<noteq> ''string''
      then False
      else if js_get step ''type'' = JStr ''action''
      then js_get step ''tool'' \<noteq> JUndefined \<and> js_get step ''input'' \<noteq> JUndefined
      else js_get step ''content'' \<noteq> JUndefined)"

definition validReasoningSteps :: "jsval list \<Rightarrow> jsval list" where
  "validReasoningSteps reasoningSteps = filter isValidStep reasoningSteps"

text \<open>The kinds the type \<open>ReasoningStep\<close> declares.\<close>

definition known_kind :: "string \<Rightarrow> bool" where
  "known_kind t = (t = ''thought'' \<or> t = ''action'' \<or> t = ''observation'')"

section \<open>What the engine provides\<close>

text \<open>
  Two operations of the JavaScript engine are used by the client and are not code of the
  repository; the model takes them as parameters, so every theorem below holds whatever
  they are.
  \<^item> \<open>json_parse\<close> is \<open>JSON.parse\<close>: \<open>None\<close> when it throws a \<open>SyntaxError\<close>.
  \<^item> \<open>coerce_plus\<close> is the operator \<open>+\<close> on operands that are not both strings
    (it converts them and may add them as floating-point numbers). The conversion is
    taken to give a value: an \<open>unconvertible\<close> operand, on which it would throw inside
    React's state update, is outside the model of the stream handler.
\<close>

record engine =
  json_parse :: "string \<Rightarrow> jsval option"
  coerce_plus :: "jsval \<Rightarrow> jsval \<Rightarrow> jsval"

text \<open>The operator \<open>a + b\<close>: concatenation on two strings.\<close>

fun js_plus :: "engine \<Rightarrow> jsval \<Rightarrow> jsval \<Rightarrow> jsval" where
  "js_plus E (JStr x) (JStr y) = JStr (x @ y)"
| "js_plus E a b = coerce_plus E a b"

section \<open>Messages\<close>

text \<open>
  \<^verbatim>\<open>
  export interface Message {
    id: string;
    type: 'user' | 'assistant';
    content: string;
    sqlQuery?: string;
    queryResults?: any[][];
    reasoningSteps?: ReasoningStep[];
    timestamp: Date;
    isStreaming?: boolean;
  }
  \<close>
  The fields that the stream handler fills from a parsed frame (\<open>content\<close>, \<open>sqlQuery\<close>,
  \<open>queryResults\<close>, \<open>columns\<close>, the elements of \<open>reasoningSteps\<close>) hold whatever value the
  frame carried, so they are \<open>jsval\<close>s, \<open>JUndefined\<close> for an absent optional field.
  \<open>columns\<close> is not declared by the interface; the handler sets it all the same.
  An optional field the handler never fills from a frame is an \<open>option\<close>.
  The timestamp is the clock reading in milliseconds.
\<close>

datatype role = User | Assistant

record message =
  msg_id :: string
  msg_type :: role
  content :: jsval
  sqlQuery :: jsval
  queryResults :: jsval
  columns :: jsval
  reasoningSteps :: "jsval list option"
  timestamp :: nat
  isStreaming :: "bool option"

text \<open>
  Every update of the handler has the shape
  \<^verbatim>\<open>setMessages(prev => prev.map(msg => msg.id === assistantMessage.id ? {...msg, ...} : msg))\<close>.
\<close>

definition on_assistant :: "string \<Rightarrow> (message \<Rightarrow> message) \<Rightarrow> message list \<Rightarrow> message list" where
  "on_assistant aid f prev = map (\<lambda>msg. if msg_id msg = aid then f msg else msg) prev"

section \<open>Applying one frame\<close>

text \<open>
  The body of the inner \<open>try\<close> of \<open>handleSubmit\<close>, after \<open>JSON.parse\<close> has returned
  \<open>data\<close>:
  \<^verbatim>\<open>
  if (data.type === 'reasoning_step') {
    ... { ...msg, reasoningSteps: [...(msg.reasoningSteps || []), data.step] } ...
  } else if (data.type === 'chat_token') {
    ... { ...msg, content: (msg.content || '') + data.content } ...
  } else if (data.type === 'chat_done') {
    ... { ...msg, isStreaming: false } ...
  } else if (data.type === 'final_result') {
    ... { ...msg, content: data.summary || data.answer, sqlQuery: data.sql_query,
          queryResults: data.query_results, columns: data.columns, isStreaming: false } ...
    break;
  } else if (data.type === 'error') {
    throw new Error(data.content);
  }
  \<close>
  One definition for each update, named after the frame type it serves.
\<close>

definition apply_reasoning_step :: "jsval \<Rightarrow> message \<Rightarrow> message" where
  "apply_reasoning_step data msg =
     msg\<lparr>reasoningSteps :=
           Some ((case reasoningSteps msg of None \<Rightarrow> [] | Some steps \<Rightarrow> steps)
                 @ [js_get data ''step''])\<rparr>"

definition apply_chat_token :: "engine \<Rightarrow> jsval \<Rightarrow> message \<Rightarrow> message" where
  "apply_chat_token E data msg =
     msg\<lparr>content := js_plus E (js_or (content msg) (JStr [])) (js_get data ''content'')\<rparr>"

definition apply_chat_done :: "message \<Rightarrow> message" where
  "apply_chat_done msg = msg\<lparr>isStreaming := Some False\<rparr>"

definition apply_final_result :: "jsval \<Rightarrow> message \<Rightarrow> message" where
  "apply_final_result data msg =
     msg\<lparr>content := js_or (js_get data ''summary'') (js_get data ''answer''),
         sqlQuery := js_get data ''sql_query'',
         queryResults := js_get data ''query_results'',
         columns := js_get data ''columns'',
         isStreaming := Some False\<rparr>"

text \<open>
  How the body of the \<open>try\<close> ends: it falls through to the next line of the batch, it
  leaves the \<open>for\<close> loop by \<open>break\<close>, or it throws. Reading \<open>data.type\<close> throws a
  \<open>TypeError\<close> when \<open>data\<close> is \<open>null\<close>.
\<close>

datatype thrown = TypeError | ErrorEvent jsval

datatype outcome = Normal "message list" | Break "message list" | Throw thrown

definition apply_frame :: "engine \<Rightarrow> string \<Rightarrow> jsval \<Rightarrow> message list \<Rightarrow> outcome" where
  "apply_frame E aid data prev =
     (if nullish data then Throw TypeError
      else if js_get data ''type'' = JStr ''reasoning_step''
        then Normal (on_assistant aid (apply_reasoning_step data) prev)
      else if js_get data ''type'' = JStr ''chat_token''
        then Normal (on_assistant aid (apply_chat_token E data) prev)
      else if js_get data ''type'' = JStr ''chat_done''
        then Normal (on_assistant aid apply_chat_done prev)
      else if js_get data ''type'' = JStr ''final_result''
        then Break (on_assistant aid (apply_final_result data) prev)
      else if js_get data ''type'' = JStr ''error''
        then Throw (ErrorEvent (js_get data ''content''))
      else Normal prev)"

text \<open>
  One line of a batch:
  \<^verbatim>\<open>
  if (line.startsWith('data: ')) {
    try { const data = JSON.parse(line.slice(6)); ... }
    catch (parseError) { console.error('Error parsing SSE data:', parseError); }
  }
  \<close>
  The \<open>catch\<close> takes whatever the \<open>try\<close> throws: the \<open>SyntaxError\<close> of \<open>JSON.parse\<close>,
  the \<open>TypeError\<close> of \<open>null.type\<close>, and the \<open>Error\<close> thrown for a frame of type
  \<open>error\<close>. It logs and the loop goes on with the messages as they were. The result
  is the messages and whether the \<open>for\<close> loop was left by \<open>break\<close>.
\<close>

definition is_data_line :: "string \<Rightarrow> bool" where
  "is_data_line line = (take 6 line = ''data: '')"

definition process_line :: "engine \<Rightarrow> string \<Rightarrow> string \<Rightarrow> message list \<Rightarrow> message list \<times> bool" where
  "process_line E aid line prev =
     (if is_data_line line then
        (case json_parse E (drop 6 line) of
           None \<Rightarrow> (prev, False)
         | Some data \<Rightarrow>
             (case apply_frame E aid data prev of
                Normal msgs \<Rightarrow> (msgs, False)
              | Break msgs \<Rightarrow> (msgs, True)
              | Throw err \<Rightarrow> (prev, False)))
      else (prev, False))"

text \<open>\<^verbatim>\<open>for (const line of lines) { ... }\<close>, left early by the \<open>break\<close>.\<close>

fun process_lines :: "engine \<Rightarrow> string \<Rightarrow> string list \<Rightarrow> message list \<Rightarrow> message list" where
  "process_lines E aid [] prev = prev"
| "process_lines E aid (line # lines) prev =
     (case process_line E aid line prev of
        (msgs, True) \<Rightarrow> msgs
      | (msgs, False) \<Rightarrow> process_lines E aid lines msgs)"

section \<open>Reading the stream\<close>

text \<open>\<open>s.split('\n')\<close>: the pieces between the newlines, never an empty list.\<close>

fun split_nl :: "string \<Rightarrow> string list" where
  "split_nl [] = [[]]"
| "split_nl (c # cs) =
     (if c = CHR 0x0A then [] # split_nl cs
      else (case split_nl cs of [] \<Rightarrow> [[c]] | l # ls \<Rightarrow> (c # l) # ls))"

text \<open>
  One turn of the reading loop, for the text \<open>value\<close> that the decoder made of the bytes
  of one read (the decoder runs with \<open>stream: true\<close>, so the text of the reads
  concatenates to the text of the stream):
  \<^verbatim>\<open>
  buffer += decoder.decode(value, { stream: true });
  const lines = buffer.split('\n');
  buffer = lines.pop() || ''; // Keep incomplete line in buffer
  for (const line of lines) { ... }
  \<close>
  \<open>next_lines\<close> is the first three statements: the lines handed to the \<open>for\<close> loop and
  the new buffer (\<open>pop\<close> takes the last piece, which is \<open>''\<close> itself when the text
  ends with a newline). The state of the loop is the buffer and the messages.
\<close>

definition next_lines :: "string \<Rightarrow> string \<Rightarrow> string list \<times> string" where
  "next_lines buffer val =
     (let lines = split_nl (buffer @ val) in (butlast lines, last lines))"

definition read_turn :: "engine \<Rightarrow> string \<Rightarrow> string \<times> message list \<Rightarrow> string \<Rightarrow> string \<times> message list" where
  "read_turn E aid st val =
     (case next_lines (fst st) val of
        (lines, buffer) \<Rightarrow> (buffer, process_lines E aid lines (snd st)))"

text \<open>
  \<^verbatim>\<open>while (true) { const { done, value } = await reader.read(); if (done) break; ... }\<close>
  over the reads of a stream that ends. What is left in the buffer at the end is not
  processed.
\<close>

definition read_loop :: "engine \<Rightarrow> string \<Rightarrow> string list \<Rightarrow> string \<times> message list \<Rightarrow> string \<times> message list" where
  "read_loop E aid reads st = foldl (read_turn E aid) st reads"

section \<open>Submitting a question\<close>

text \<open>Decimal digits of a number, as \<open>n.toString()\<close> and a template string print it.\<close>

fun show_nat :: "nat \<Rightarrow> string" where
  "show_nat n =
     (if n < 10 then [''0123456789'' ! n]
      else show_nat (n div 10) @ [''0123456789'' ! (n mod 10)])"

declare show_nat.simps [simp del]

text \<open>
  \<open>s.trim()\<close>. A \<open>char\<close> stands for a code unit of the string; of the white space and
  line terminators of JavaScript, these are the ones below 256.
\<close>

definition is_space :: "char \<Rightarrow> bool" where
  "is_space c = (c \<in> set [CHR 0x09, CHR 0x0A, CHR 0x0B, CHR 0x0C, CHR 0x0D, CHR 0x20, CHR 0xA0])"

definition trim :: "string \<Rightarrow> string" where
  "trim s = rev (dropWhile is_space (rev (dropWhile is_space s)))"

text \<open>
  What the network does during one call of \<open>handleSubmit\<close>. \<open>fetch\<close> rejects, or
  answers with a status and perhaps a body; the body is the text of its reads, in order,
  and then either ends (\<open>done\<close>) or a read rejects. A thrown value that is an
  \<open>Error\<close> carries a message.
\<close>

datatype failure = ErrorWith string | NotAnError

datatype stream_end = Done | ReadFailed failure

datatype fetched = FetchFailed failure | Response nat "(string list \<times> stream_end) option"

text \<open>
  The four clock readings of one call: \<open>Date.now()\<close> and \<open>new Date()\<close> for the user
  message, then for the assistant message.
\<close>

record clock =
  now_user :: nat
  date_user :: nat
  now_assistant :: nat
  date_assistant :: nat

record chat_state =
  messages :: "message list"
  inputValue :: string
  isLoading :: bool
  error :: "string option"

text \<open>
  \<^verbatim>\<open>
  const userMessage: Message = { id: Date.now().toString(), type: 'user',
    content: inputValue.trim(), timestamp: new Date() };
  const assistantMessage: Message = { id: (Date.now() + 1).toString(), type: 'assistant',
    content: '', timestamp: new Date(), isStreaming: true, reasoningSteps: [] };
  \<close>
\<close>

definition userMessage :: "clock \<Rightarrow> string \<Rightarrow> message" where
  "userMessage clk input =
     \<lparr>msg_id = show_nat (now_user clk), msg_type = User, content = JStr (trim input),
      sqlQuery = JUndefined, queryResults = JUndefined, columns = JUndefined,
      reasoningSteps = None, timestamp = date_user clk, isStreaming = None\<rparr>"

definition assistantMessage :: "clock \<Rightarrow> message" where
  "assistantMessage clk =
     \<lparr>msg_id = show_nat (now_assistant clk + 1), msg_type = Assistant, content = JStr [],
      sqlQuery = JUndefined, queryResults = JUndefined, columns = JUndefined,
      reasoningSteps = Some [], timestamp = date_assistant clk, isStreaming = Some True\<rparr>"

text \<open>
  The outer \<open>try\<close> block: the value thrown out of it, if any, and the messages as the
  updates made before the throw left them.
  \<^verbatim>\<open>
  const response = await fetch(...);
  if (!response.ok) { throw new Error(`HTTP error! status: ${response.status}`); }
  const reader = response.body?.getReader();
  if (!reader) { throw new Error('No response body'); }
  const decoder = new TextDecoder();
  let buffer = '';
  while (true) { ... }
  \<close>
  \<open>response.ok\<close> is true for a status from 200 to 299.
\<close>

definition try_stream :: "engine \<Rightarrow> string \<Rightarrow> fetched \<Rightarrow> message list \<Rightarrow> failure option \<times> message list" where
  "try_stream E aid net prev =
     (case net of
        FetchFailed err \<Rightarrow> (Some err, prev)
      | Response status body \<Rightarrow>
          if \<not> (200 \<le> status \<and> status \<le> 299)
          then (Some (ErrorWith (''HTTP error! status: '' @ show_nat status)), prev)
          else (case body of
                  None \<Rightarrow> (Some (ErrorWith ''No response body''), prev)
                | Some (reads, ending) \<Rightarrow>
                    (let msgs = snd (read_loop E aid reads ([], prev))
                     in case ending of
                          Done \<Rightarrow> (None, msgs)
                        | ReadFailed err \<Rightarrow> (Some err, msgs))))"

text \<open>
  The outer \<open>catch\<close>:
  \<^verbatim>\<open>
  const errorMessage = err instanceof Error ? err.message : 'An error occurred';
  setError(errorMessage);
  ... { ...msg, content: `Sorry, I encountered an error: ${errorMessage}`, isStreaming: false } ...
  \<close>
\<close>

definition errorMessage :: "failure \<Rightarrow> string" where
  "errorMessage err = (case err of ErrorWith m \<Rightarrow> m | NotAnError \<Rightarrow> ''An error occurred'')"

definition apply_failure :: "string \<Rightarrow> message \<Rightarrow> message" where
  "apply_failure m msg =
     msg\<lparr>content := JStr (''Sorry, I encountered an error: '' @ m), isStreaming := Some False\<rparr>"

text \<open>
  The outer \<open>try\<close> with its \<open>catch\<close>: the messages afterwards and the error shown,
  if any.
\<close>

definition reconcile :: "engine \<Rightarrow> string \<Rightarrow> fetched \<Rightarrow> message list \<Rightarrow> message list \<times> string option" where
  "reconcile E aid net prev =
     (case try_stream E aid net prev of
        (None, msgs) \<Rightarrow> (msgs, None)
      | (Some err, msgs) \<Rightarrow>
          (on_assistant aid (apply_failure (errorMessage err)) msgs, Some (errorMessage err)))"

text \<open>
  \<open>handleSubmit\<close>, from the submitted form to the \<open>finally\<close>. It returns at once when
  the input is blank or a request is under way; otherwise it appends the two new messages,
  clears the input and the error, and reconciles the stream into the assistant message.
\<close>

definition handleSubmit :: "engine \<Rightarrow> clock \<Rightarrow> fetched \<Rightarrow> chat_state \<Rightarrow> chat_state" where
  "handleSubmit E clk net st =
     (if trim (inputValue st) = [] \<or> isLoading st then st
      else
        (case reconcile E (msg_id (assistantMessage clk)) net
                (messages st @ [userMessage clk (inputValue st), assistantMessage clk]) of
           (msgs, err) \<Rightarrow>
             st\<lparr>messages := msgs, inputValue := [], isLoading := False, error := err\<rparr>))"

section \<open>Restoring the chat history at startup\<close>

text \<open>
  The effect that runs when \<open>ChatInterface\<close> mounts:
  \<^verbatim>\<open>
  const savedMessages = localStorage.getItem('chatHistory');
  if (savedMessages) {
    try {
      const parsedMessages = JSON.parse(savedMessages);
      const messagesWithDates = parsedMessages.map((msg: any) => ({
        ...msg, timestamp: new Date(msg.timestamp) }));
      setMessages(messagesWithDates);
      prevMessageCountRef.current = messagesWithDates.length;
    } catch (error) {
      console.error('Error loading chat history from localStorage:', error);
      localStorage.removeItem('chatHistory');
    }
  }
  setInitialLoadComplete(true);
  \<close>
  The restored messages are the parsed objects as they are (the source gives them the type
  \<open>Message\<close> without a check), so here the message list is a list of \<open>jsval\<close>s.
  \<open>stored\<close> is the entry of \<open>localStorage\<close> under the key \<open>chatHistory\<close>; the
  storage is there to be read and written, as it is for the effect that saves the
  messages, so \<open>getItem\<close> and \<open>removeItem\<close> return.
\<close>

record startup_state =
  stored :: "string option"
  restored :: "jsval list"
  prevMessageCount :: nat
  initialLoadComplete :: bool

text \<open>\<open>{...v}\<close>: the own enumerable properties of a value.\<close>

fun spread :: "jsval \<Rightarrow> (string \<times> jsval) list" where
  "spread (JObj kvs) = kvs"
| "spread (JArr xs) = zip (map show_nat [0..<length xs]) xs"
| "spread (JStr s) = zip (map show_nat [0..<length s]) (map (\<lambda>c. JStr [c]) s)"
| "spread v = []"

text \<open>
  What the \<open>try\<close> block can throw: the \<open>SyntaxError\<close> of \<open>JSON.parse\<close>, and three
  \<open>TypeError\<close>s: calling a \<open>map\<close> that is no function, reading a property of \<open>null\<close>,
  and giving \<open>new Date\<close> a value that cannot be converted to a primitive.
\<close>

datatype load_error = SyntaxError | NotCallable | NullRead | NotPrimitive

text \<open>
  The callback of \<open>map\<close>. Reading \<open>msg.timestamp\<close> throws when \<open>msg\<close> is \<open>null\<close>;
  \<open>new Date(msg.timestamp)\<close> throws when the timestamp is \<open>unconvertible\<close>, and
  otherwise builds a date, valid or not, from any value.
\<close>

definition with_date :: "jsval \<Rightarrow> load_error + jsval" where
  "with_date msg =
     (if nullish msg then Inl NullRead
      else if unconvertible (js_get msg ''timestamp'') then Inl NotPrimitive
      else Inr (JObj (AList.update ''timestamp'' (JDate (js_get msg ''timestamp'')) (spread msg))))"

fun map_with_date :: "jsval list \<Rightarrow> load_error + jsval list" where
  "map_with_date [] = Inr []"
| "map_with_date (msg # msgs) =
     (case with_date msg of
        Inl err \<Rightarrow> Inl err
      | Inr m \<Rightarrow> (case map_with_date msgs of Inl err \<Rightarrow> Inl err | Inr ms \<Rightarrow> Inr (m # ms)))"

text \<open>
  The \<open>try\<close> block up to \<open>setMessages\<close>. Only an array has a \<open>map\<close> to call: on
  \<open>null\<close> the read of \<open>.map\<close> throws, on any other parsed value \<open>.map\<close> is not a function.
\<close>

definition parse_history :: "engine \<Rightarrow> string \<Rightarrow> load_error + jsval list" where
  "parse_history E savedMessages =
     (case json_parse E savedMessages of
        None \<Rightarrow> Inl SyntaxError
      | Some parsedMessages \<Rightarrow>
          if nullish parsedMessages then Inl NullRead
          else (case parsedMessages of
                  JArr msgs \<Rightarrow> map_with_date msgs
                | _ \<Rightarrow> Inl NotCallable))"

definition load_history :: "engine \<Rightarrow> startup_state \<Rightarrow> startup_state" where
  "load_history E st =
     (let st' =
        (case stored st of
           None \<Rightarrow> st
         | Some savedMessages \<Rightarrow>
             if savedMessages = [] then st
             else (case parse_history E savedMessages of
                     Inr messagesWithDates \<Rightarrow>
                       st\<lparr>restored := messagesWithDates,
                          prevMessageCount := length messagesWithDates\<rparr>
                   | Inl err \<Rightarrow> st\<lparr>stored := None\<rparr>))
      in st'\<lparr>initialLoadComplete := True\<rparr>)"

text \<open>The state in which the component mounts, for a given content of the storage.\<close>

definition mount :: "string option \<Rightarrow> startup_state" where
  "mount entry = \<lparr>stored = entry, restored = [], prevMessageCount = 0, initialLoadComplete = False\<rparr>"

section \<open>A reader of JSON text for the examples\<close>

text \<open>
  The theorems are stated for any \<open>json_parse\<close>. The examples run the model on the text
  of real frames and need one: \<open>parse_json\<close> reads the JSON grammar (objects, arrays,
  strings with their escapes, numbers, the three literals, the four white-space
  characters). A repeated key keeps its first place and its last value. It fails on an
  escape \<open>\uXXXX\<close> of a code unit above 255, which no \<open>char\<close> stands for, and it gives
  a number the exact value of its literal. The fuel is the length of the text, which
  bounds the number of nested calls.
\<close>

definition is_json_ws :: "char \<Rightarrow> bool" where
  "is_json_ws c = (c = CHR 0x20 \<or> c = CHR 0x09 \<or> c = CHR 0x0A \<or> c = CHR 0x0D)"

definition skip_ws :: "string \<Rightarrow> string" where
  "skip_ws s = dropWhile is_json_ws s"

definition hex_val :: "char \<Rightarrow> nat option" where
  "hex_val c =
     map_of [(CHR ''0'', 0), (CHR ''1'', 1), (CHR ''2'', 2), (CHR ''3'', 3), (CHR ''4'', 4),
             (CHR ''5'', 5), (CHR ''6'', 6), (CHR ''7'', 7), (CHR ''8'', 8), (CHR ''9'', 9),
             (CHR ''a'', 10), (CHR ''b'', 11), (CHR ''c'', 12), (CHR ''d'', 13),
             (CHR ''e'', 14), (CHR ''f'', 15), (CHR ''A'', 10), (CHR ''B'', 11),
             (CHR ''C'', 12), (CHR ''D'', 13), (CHR ''E'', 14), (CHR ''F'', 15)] c"

definition is_digit :: "char \<Rightarrow> bool" where
  "is_digit c = (c \<in> set ''0123456789'')"

definition digits_val :: "string \<Rightarrow> nat" where
  "digits_val ds = foldl (\<lambda>n c. 10 * n + (case hex_val c of None \<Rightarrow> 0 | Some d \<Rightarrow> d)) 0 ds"

definition simple_escape :: "char \<Rightarrow> char option" where
  "simple_escape c =
     map_of [(CHR 0x22, CHR 0x22), (CHR 0x5C, CHR 0x5C), (CHR ''/'', CHR ''/''),
             (CHR ''b'', CHR 0x08), (CHR ''f'', CHR 0x0C), (CHR ''n'', CHR 0x0A),
             (CHR ''r'', CHR 0x0D), (CHR ''t'', CHR 0x09)] c"

definition hex4 :: "char \<Rightarrow> char \<Rightarrow> char \<Rightarrow> char \<Rightarrow> nat option" where
  "hex4 a b c d =
     (case (hex_val a, hex_val b, hex_val c, hex_val d) of
        (Some w, Some x, Some y, Some z) \<Rightarrow> Some (((w * 16 + x) * 16 + y) * 16 + z)
      | _ \<Rightarrow> None)"

text \<open>The characters of a string after its opening quote, up to the closing one.\<close>

fun parse_chars :: "string \<Rightarrow> string \<Rightarrow> (string \<times> string) option" where
  "parse_chars [] acc = None"
| "parse_chars (c # cs) acc =
     (if c = CHR 0x22 then Some (rev acc, cs)
      else if c = CHR 0x5C then
        (case cs of
           [] \<Rightarrow> None
         | e # cs1 \<Rightarrow>
             if e = CHR ''u'' then
               (case cs1 of
                  h1 # h2 # h3 # h4 # cs2 \<Rightarrow>
                    (case hex4 h1 h2 h3 h4 of
                       None \<Rightarrow> None
                     | Some n \<Rightarrow> if n < 256 then parse_chars cs2 (char_of n # acc) else None)
                | _ \<Rightarrow> None)
             else (case simple_escape e of
                     None \<Rightarrow> None
                   | Some x \<Rightarrow> parse_chars cs1 (x # acc)))
      else if (of_char c :: nat) < 32 then None
      else parse_chars cs (c # acc))"

text \<open>
  A number: an optional minus, \<open>0\<close> or digits that do not start with \<open>0\<close>, an optional
  fraction, an optional exponent.
\<close>

definition parse_exponent :: "string \<Rightarrow> (int \<times> string) option" where
  "parse_exponent s =
     (case s of
        [] \<Rightarrow> Some (0, s)
      | c # cs \<Rightarrow>
          if c = CHR ''e'' \<or> c = CHR ''E'' then
            (let neg = (take 1 cs = ''-'');
                 r = (if take 1 cs = ''-'' \<or> take 1 cs = ''+'' then drop 1 cs else cs);
                 ds = takeWhile is_digit r
             in if ds = [] then None
                else Some ((if neg then - int (digits_val ds) else int (digits_val ds)),
                           dropWhile is_digit r))
          else Some (0, s))"

definition parse_fraction :: "string \<Rightarrow> (string \<times> string) option" where
  "parse_fraction s =
     (case s of
        [] \<Rightarrow> Some ([], s)
      | c # cs \<Rightarrow>
          if c = CHR ''.'' then
            (let ds = takeWhile is_digit cs
             in if ds = [] then None else Some (ds, dropWhile is_digit cs))
          else Some ([], s))"

definition parse_number :: "string \<Rightarrow> (rat \<times> string) option" where
  "parse_number s =
     (let neg = (take 1 s = ''-'');
          r = (if neg then drop 1 s else s);
          whole = (if take 1 r = ''0'' then ''0'' else takeWhile is_digit r);
          r1 = drop (length whole) r
      in if whole = [] then None
         else (case parse_fraction r1 of
                 None \<Rightarrow> None
               | Some (decimals, r2) \<Rightarrow>
                   (case parse_exponent r2 of
                      None \<Rightarrow> None
                    | Some (ex, r3) \<Rightarrow>
                        (let mant = (of_nat (digits_val (whole @ decimals)) :: rat) / 10 ^ length decimals;
                             scaled = (if ex < 0 then mant / 10 ^ nat (- ex) else mant * 10 ^ nat ex)
                         in Some ((if neg then - scaled else scaled), r3)))))"

fun parse_value :: "nat \<Rightarrow> string \<Rightarrow> (jsval \<times> string) option"
and parse_elements :: "nat \<Rightarrow> string \<Rightarrow> jsval list \<Rightarrow> (jsval \<times> string) option"
and parse_members :: "nat \<Rightarrow> string \<Rightarrow> (string \<times> jsval) list \<Rightarrow> (jsval \<times> string) option" where
  "parse_value 0 s = None"
| "parse_value (Suc n) s =
     (case skip_ws s of
        [] \<Rightarrow> None
      | c # cs \<Rightarrow>
          if c = CHR ''{'' then
            (if take 1 (skip_ws cs) = ''}'' then Some (JObj [], drop 1 (skip_ws cs))
             else parse_members n cs [])
          else if c = CHR ''['' then
            (if take 1 (skip_ws cs) = '']'' then Some (JArr [], drop 1 (skip_ws cs))
             else parse_elements n cs [])
          else if c = CHR 0x22 then
            (case parse_chars cs [] of None \<Rightarrow> None | Some (str, r) \<Rightarrow> Some (JStr str, r))
          else if take 4 (c # cs) = ''true'' then Some (JBool True, drop 4 (c # cs))
          else if take 5 (c # cs) = ''false'' then Some (JBool False, drop 5 (c # cs))
          else if take 4 (c # cs) = ''null'' then Some (JNull, drop 4 (c # cs))
          else (case parse_number (c # cs) of
                  None \<Rightarrow> None
                | Some (q, r) \<Rightarrow> Some (JNum q, r)))"
| "parse_elements 0 s acc = None"
| "parse_elements (Suc n) s acc =
     (case parse_value n s of
        None \<Rightarrow> None
      | Some (v, r) \<Rightarrow>
          (case skip_ws r of
             [] \<Rightarrow> None
           | c # r1 \<Rightarrow>
               if c = CHR '','' then parse_elements n r1 (acc @ [v])
               else if c = CHR '']'' then Some (JArr (acc @ [v]), r1)
               else None))"
| "parse_members 0 s acc = None"
| "parse_members (Suc n) s acc =
     (case skip_ws s of
        [] \<Rightarrow> None
      | q # s1 \<Rightarrow>
          if q \<noteq> CHR 0x22 then None
          else (case parse_chars s1 [] of
                  None \<Rightarrow> None
                | Some (k, r) \<Rightarrow>
                    (case skip_ws r of
                       [] \<Rightarrow> None
                     | c # r1 \<Rightarrow>
                         if c \<noteq> CHR '':'' then None
                         else (case parse_value n r1 of
                                 None \<Rightarrow> None
                               | Some (v, r2) \<Rightarrow>
                                   (case skip_ws r2 of
                                      [] \<Rightarrow> None
                                    | d # r3 \<Rightarrow>
                                        if d = CHR '','' then parse_members n r3 (AList.update k v acc)
                                        else if d = CHR ''}'' then Some (JObj (AList.update k v acc), r3)
                                        else None)))))"

definition parse_json :: "string \<Rightarrow> jsval option" where
  "parse_json s =
     (case parse_value (Suc (length s)) s of
        None \<Rightarrow> None
      | Some (v, r) \<Rightarrow> if skip_ws r = [] then Some v else None)"

text \<open>
  The engine of the examples. No example adds operands that are not both strings, so
  its \<open>coerce_plus\<close> is left unspecified.
\<close>

definition example_engine :: engine where
  "example_engine = \<lparr>json_parse = parse_json, coerce_plus = undefined\<rparr>"

section \<open>Notions used to state the properties\<close>

text \<open>
  The type of the frame that a line carries, as the handler reads it: the line starts with
  \<open>data: \<close>, its payload parses to a value other than \<open>null\<close>, and the \<open>type\<close> of that
  value is a string.
\<close>

definition frame_type :: "engine \<Rightarrow> string \<Rightarrow> string option" where
  "frame_type E line =
     (if is_data_line line then
        (case json_parse E (drop 6 line) of
           None \<Rightarrow> None
         | Some data \<Rightarrow>
             if nullish data then None
             else (case js_get data ''type'' of JStr t \<Rightarrow> Some t | _ \<Rightarrow> None))
      else None)"

definition is_final :: "engine \<Rightarrow> string \<Rightarrow> bool" where
  "is_final E line = (frame_type E line = Some ''final_result'')"

text \<open>
  A line that is a frame of type \<open>reasoning_step\<close> or \<open>chat_token\<close>, or no frame at all
  (such as the blank line that ends each frame on the wire).
\<close>

definition step_or_token :: "engine \<Rightarrow> string \<Rightarrow> bool" where
  "step_or_token E line =
     (frame_type E line = Some ''reasoning_step'' \<or> frame_type E line = Some ''chat_token''
      \<or> (\<not> is_data_line line))"

text \<open>Every line processed in turn, with no \<open>break\<close>.\<close>

definition process_all :: "engine \<Rightarrow> string \<Rightarrow> string list \<Rightarrow> message list \<Rightarrow> message list" where
  "process_all E aid lines prev = foldl (\<lambda>msgs line. fst (process_line E aid line msgs)) prev lines"

text \<open>The batches of lines that the turns of the reading loop hand to the \<open>for\<close> loop.\<close>

fun batches :: "string \<Rightarrow> string list \<Rightarrow> string list list" where
  "batches buffer [] = []"
| "batches buffer (val # reads) =
     fst (next_lines buffer val) # batches (snd (next_lines buffer val)) reads"

text \<open>The complete lines of a text, and the partial line that follows the last newline.\<close>

definition complete_lines :: "string \<Rightarrow> string list" where
  "complete_lines s = butlast (split_nl s)"

definition partial_line :: "string \<Rightarrow> string" where
  "partial_line s = last (split_nl s)"

text \<open>
  No frame follows a \<open>final_result\<close> frame: the lines after the first such frame, if
  there is one, do not start with \<open>data: \<close>.
\<close>

fun quiet_after_final :: "engine \<Rightarrow> string list \<Rightarrow> bool" where
  "quiet_after_final E [] = True"
| "quiet_after_final E (line # lines) =
     (if is_final E line then list_all (\<lambda>l. \<not> is_data_line l) lines
      else quiet_after_final E lines)"

text \<open>A message is shown as streaming when its flag is \<open>true\<close>.\<close>

definition streaming :: "message \<Rightarrow> bool" where
  "streaming msg = (isStreaming msg = Some True)"

text \<open>The flag never goes from not streaming to streaming, message by message.\<close>

definition never_restarted :: "message list \<Rightarrow> message list \<Rightarrow> bool" where
  "never_restarted before after =
     list_all2 (\<lambda>m m'. msg_id m' = msg_id m \<and> (streaming m' \<longrightarrow> streaming m)) before after"



text \<open>
  A stream for the examples: two reasoning steps, a token, \<open>chat_done\<close> and the final result,
  each frame followed by a blank line. It arrives in two reads that cut a frame in the
  middle, or in one read.
\<close>

definition two_reads :: "string list" where
  \<open>two_reads =
     [''data: {"type":"reasoning_step","step":{"type":"thought","content":"checking schema"}}\<newline>\<newline>data: {"type":"reasoning_step","step":{"type":"action","tool":"sql","input":"SELECT 1"}}\<newline>\<newline>da'',
      ''ta: {"type":"chat_token","content":"Result"}\<newline>\<newline>data: {"type":"chat_done"}\<newline>\<newline>data: {"type":"final_result","summary":"Result is 1","query_results":[[1]],"columns":["x"]}\<newline>\<newline>'']\<close>

definition one_read :: "string list" where
  "one_read = [concat two_reads]"

text \<open>The beginning of such a stream: a reasoning step and a token, in two reads.\<close>

definition first_reads :: "string list" where
  \<open>first_reads =
     [''data: {"type":"reasoning_step","step":{"type":"thought","content":"checking schema"}}\<newline>\<newline>da'',
      ''ta: {"type":"chat_token","content":"Result"}\<newline>\<newline>'']\<close>

text \<open>
  A stream that does not keep to the protocol: a token follows the final result. It
  arrives in one read, or in two reads cut between the two frames.
\<close>

definition late_token_one_read :: "string list" where
  \<open>late_token_one_read =
     [''data: {"type":"final_result","summary":"a"}\<newline>data: {"type":"chat_token","content":"b"}\<newline>'']\<close>

definition late_token_two_reads :: "string list" where
  \<open>late_token_two_reads =
     [''data: {"type":"final_result","summary":"a"}\<newline>'',
      ''data: {"type":"chat_token","content":"b"}\<newline>'']\<close>

text \<open>A clock and a fresh chat for the examples.\<close>

definition clock0 :: clock where
  "clock0 = \<lparr>now_user = 7, date_user = 7, now_assistant = 8, date_assistant = 8\<rparr>"

definition clock1 :: clock where
  "clock1 = \<lparr>now_user = 20, date_user = 21, now_assistant = 22, date_assistant = 23\<rparr>"

definition fresh_chat :: "string \<Rightarrow> chat_state" where
  "fresh_chat question = \<lparr>messages = [], inputValue = question, isLoading = False, error = None\<rparr>"

section \<open>Lines, batches and the buffer\<close>

lemma process_line_not_data: "\<not> is_data_line line \<Longrightarrow> process_line E aid line prev = (prev, False)"
  by (simp add: process_line_def)

lemma split_nl_nonempty [simp]: "split_nl s \<noteq> []"
  by (induction s) (auto split: list.splits)

lemma split_nl_Cons:
  "split_nl (c # cs) =
     (if c = CHR 0x0A then [] # split_nl cs else (c # hd (split_nl cs)) # tl (split_nl cs))"
  by (cases "split_nl cs") simp_all

lemma split_nl_append:
  "split_nl (a @ b) = butlast (split_nl a) @ split_nl (last (split_nl a) @ b)"
proof (induction a)
  case Nil
  show ?case by simp
next
  case (Cons c cs)
  show ?case
  proof (cases "c = CHR 0x0A")
    case True
    then show ?thesis using Cons.IH by simp
  next
    case False
    obtain l ls where sp: "split_nl cs = l # ls" by (cases "split_nl cs") simp_all
    show ?thesis
    proof (cases ls)
      case Nil
      with False sp Cons.IH show ?thesis by (simp add: split_nl_Cons del: split_nl.simps)
    next
      case (Cons x xs)
      with False sp Cons.IH show ?thesis by (simp add: split_nl_Cons del: split_nl.simps)
    qed
  qed
qed

lemma complete_lines_append:
  "complete_lines (a @ b) = complete_lines a @ complete_lines (partial_line a @ b)"
  by (simp add: complete_lines_def partial_line_def split_nl_append[of a b] butlast_append)

lemma partial_line_append:
  "partial_line (a @ b) = partial_line (partial_line a @ b)"
  by (simp add: partial_line_def split_nl_append[of a b])

lemma next_lines_eq: "next_lines buffer val = (complete_lines (buffer @ val), partial_line (buffer @ val))"
  by (simp add: next_lines_def complete_lines_def partial_line_def Let_def)

lemma read_loop_Nil [simp]: "read_loop E aid [] st = st"
  by (simp add: read_loop_def)

lemma read_loop_Cons [simp]: "read_loop E aid (v # vs) st = read_loop E aid vs (read_turn E aid st v)"
  by (simp add: read_loop_def)

lemma read_loop_append: "read_loop E aid (xs @ ys) st = read_loop E aid ys (read_loop E aid xs st)"
  by (simp add: read_loop_def)

lemma read_turn_eq:
  "read_turn E aid (buffer, prev) val =
     (partial_line (buffer @ val), process_lines E aid (complete_lines (buffer @ val)) prev)"
  by (simp add: read_turn_def next_lines_eq)

lemma split_nl_no_newline: "CHR 0x0A \<notin> set s \<Longrightarrow> split_nl s = [s]"
  by (induction s) auto

lemma last_split_nl_no_newline: "CHR 0x0A \<notin> set (last (split_nl s))"
proof (induction s)
  case Nil
  show ?case by simp
next
  case (Cons c cs)
  obtain l ls where sp: "split_nl cs = l # ls" by (cases "split_nl cs") simp_all
  with Cons show ?case by (cases ls) auto
qed

lemma partial_line_no_newline: "CHR 0x0A \<notin> set (partial_line s)"
  by (simp add: partial_line_def last_split_nl_no_newline)

lemma partial_line_id: "CHR 0x0A \<notin> set s \<Longrightarrow> partial_line s = s"
  by (simp add: partial_line_def split_nl_no_newline)

lemma complete_lines_none: "CHR 0x0A \<notin> set s \<Longrightarrow> complete_lines s = []"
  by (simp add: complete_lines_def split_nl_no_newline)

lemma read_loop_buffer:
  "CHR 0x0A \<notin> set buffer \<Longrightarrow>
     fst (read_loop E aid reads (buffer, prev)) = partial_line (buffer @ concat reads)"
proof (induction reads arbitrary: buffer prev)
  case Nil
  then show ?case by (simp add: partial_line_id)
next
  case (Cons v vs)
  have "fst (read_loop E aid vs (partial_line (buffer @ v), process_lines E aid (complete_lines (buffer @ v)) prev))
        = partial_line (partial_line (buffer @ v) @ concat vs)"
    by (rule Cons.IH) (rule partial_line_no_newline)
  moreover have "partial_line (buffer @ v @ concat vs) = partial_line (partial_line (buffer @ v) @ concat vs)"
    using partial_line_append[of "buffer @ v" "concat vs"] by simp
  ultimately show ?case
    by (simp add: read_turn_eq)
qed

lemma concat_batches:
  "CHR 0x0A \<notin> set buffer \<Longrightarrow>
     concat (batches buffer reads) = complete_lines (buffer @ concat reads)"
proof (induction reads arbitrary: buffer)
  case Nil
  then show ?case by (simp add: complete_lines_none)
next
  case (Cons v vs)
  have "concat (batches (partial_line (buffer @ v)) vs)
        = complete_lines (partial_line (buffer @ v) @ concat vs)"
    by (rule Cons.IH) (rule partial_line_no_newline)
  moreover have "complete_lines (buffer @ v @ concat vs)
      = complete_lines (buffer @ v) @ complete_lines (partial_line (buffer @ v) @ concat vs)"
    using complete_lines_append[of "buffer @ v" "concat vs"] by simp
  ultimately show ?case
    by (simp add: next_lines_eq)
qed

lemma read_loop_batches:
  "snd (read_loop E aid reads (buffer, prev)) =
     foldl (\<lambda>msgs lines. process_lines E aid lines msgs) prev (batches buffer reads)"
  by (induction reads arbitrary: buffer prev) (simp_all add: read_turn_eq next_lines_eq)


lemma process_all_Nil [simp]: "process_all E aid [] prev = prev"
  by (simp add: process_all_def)

lemma process_all_Cons [simp]:
  "process_all E aid (l # ls) prev = process_all E aid ls (fst (process_line E aid l prev))"
  by (simp add: process_all_def)

lemma process_all_append:
  "process_all E aid (xs @ ys) prev = process_all E aid ys (process_all E aid xs prev)"
  by (simp add: process_all_def)

lemma process_line_break: "snd (process_line E aid line prev) = is_final E line"
proof (cases "is_data_line line")
  case False
  then show ?thesis by (simp add: process_line_def is_final_def frame_type_def)
next
  case True
  show ?thesis
  proof (cases "json_parse E (drop 6 line)")
    case None
    with True show ?thesis by (simp add: process_line_def is_final_def frame_type_def)
  next
    case (Some data)
    show ?thesis
    proof (cases "js_get data ''type''")
      case (JStr t)
      with True Some show ?thesis
        by (auto simp: process_line_def is_final_def frame_type_def apply_frame_def)
    qed (use True Some in \<open>simp_all add: process_line_def is_final_def frame_type_def apply_frame_def\<close>)
  qed
qed

lemma is_final_data_line: "is_final E line \<Longrightarrow> is_data_line line"
  by (simp add: is_final_def frame_type_def split: if_splits)

lemma process_all_blank:
  "list_all (\<lambda>l. \<not> is_data_line l) ls \<Longrightarrow> process_all E aid ls prev = prev"
  by (induction ls) (simp_all add: process_line_not_data)

lemma process_lines_blank:
  "list_all (\<lambda>l. \<not> is_data_line l) ls \<Longrightarrow> process_lines E aid ls prev = prev"
  by (induction ls) (simp_all add: process_line_not_data)

lemma process_lines_Cons:
  "process_lines E aid (l # ls) prev =
     (if is_final E l then fst (process_line E aid l prev)
      else process_lines E aid ls (fst (process_line E aid l prev)))"
  using process_line_break[of E aid l prev]
  by (cases "process_line E aid l prev") auto

lemma process_lines_quiet:
  "quiet_after_final E ls \<Longrightarrow> process_lines E aid ls prev = process_all E aid ls prev"
proof (induction ls arbitrary: prev)
  case Nil
  show ?case by simp
next
  case (Cons l ls)
  show ?case
  proof (cases "is_final E l")
    case True
    with Cons.prems have "list_all (\<lambda>l. \<not> is_data_line l) ls" by simp
    then show ?thesis using True
      by (simp add: process_lines_Cons process_all_blank del: process_lines.simps)
  next
    case False
    with Cons show ?thesis
      by (simp add: process_lines_Cons del: process_lines.simps)
  qed
qed

lemma blank_quiet: "list_all (\<lambda>l. \<not> is_data_line l) ls \<Longrightarrow> quiet_after_final E ls"
  by (induction ls) (auto dest: is_final_data_line)

lemma quiet_append:
  "quiet_after_final E (xs @ ys) \<Longrightarrow>
     quiet_after_final E xs \<and>
     (if list_ex (is_final E) xs then list_all (\<lambda>l. \<not> is_data_line l) ys
      else quiet_after_final E ys)"
  by (induction xs) (auto split: if_splits)

lemma foldl_process_lines_blank:
  "list_all (\<lambda>l. \<not> is_data_line l) (concat bs) \<Longrightarrow>
     foldl (\<lambda>msgs lines. process_lines E aid lines msgs) prev bs = prev"
  by (induction bs arbitrary: prev) (simp_all add: process_lines_blank)

lemma batches_quiet:
  "quiet_after_final E (concat bs) \<Longrightarrow>
     foldl (\<lambda>msgs lines. process_lines E aid lines msgs) prev bs = process_all E aid (concat bs) prev"
proof (induction bs arbitrary: prev)
  case Nil
  show ?case by simp
next
  case (Cons b bs)
  from Cons.prems have q: "quiet_after_final E b"
    and rest: "if list_ex (is_final E) b then list_all (\<lambda>l. \<not> is_data_line l) (concat bs)
               else quiet_after_final E (concat bs)"
    using quiet_append[of E b "concat bs"] by simp_all
  show ?case
  proof (cases "list_ex (is_final E) b")
    case True
    with rest have bl: "list_all (\<lambda>l. \<not> is_data_line l) (concat bs)" by simp
    show ?thesis
      by (simp add: process_lines_quiet[OF q] process_all_append
          foldl_process_lines_blank[OF bl] process_all_blank[OF bl])
  next
    case False
    with rest have "quiet_after_final E (concat bs)" by simp
    then show ?thesis
      by (simp add: process_lines_quiet[OF q] process_all_append Cons.IH)
  qed
qed

lemma read_loop_quiet:
  assumes "quiet_after_final E (complete_lines (concat reads))"
  shows "snd (read_loop E aid reads ([], prev)) = process_all E aid (complete_lines (concat reads)) prev"
proof -
  have c: "concat (batches [] reads) = complete_lines (concat reads)"
    using concat_batches[of "[]" reads] by simp
  show ?thesis
    using batches_quiet[of E "batches [] reads" aid prev] assms
    by (simp add: read_loop_batches c)
qed


lemma frame_typeD:
  assumes "frame_type E line = Some t"
  obtains data where "is_data_line line" and "json_parse E (drop 6 line) = Some data"
    and "\<not> nullish data" and "js_get data ''type'' = JStr t"
proof -
  from assms have d: "is_data_line line"
    by (simp add: frame_type_def split: if_splits)
  with assms obtain data where p: "json_parse E (drop 6 line) = Some data"
    by (cases "json_parse E (drop 6 line)") (simp_all add: frame_type_def)
  from assms d p have n: "\<not> nullish data"
    by (simp add: frame_type_def split: if_splits)
  from assms d p n have "js_get data ''type'' = JStr t"
    by (cases "js_get data ''type''") (simp_all add: frame_type_def)
  with d p n show ?thesis by (rule that)
qed

lemma on_assistant_length [simp]: "length (on_assistant aid f prev) = length prev"
  by (simp add: on_assistant_def)

lemma never_restarted_refl [simp]: "never_restarted xs xs"
  by (simp add: never_restarted_def list_all2_same)

lemma never_restarted_trans:
  "never_restarted xs ys \<Longrightarrow> never_restarted ys zs \<Longrightarrow> never_restarted xs zs"
proof -
  let ?R = "\<lambda>m m'. msg_id m' = msg_id m \<and> (streaming m' \<longrightarrow> streaming m)"
  assume "never_restarted xs ys" and "never_restarted ys zs"
  then have "list_all2 ?R xs ys" and "list_all2 ?R ys zs"
    by (simp_all add: never_restarted_def)
  then have "list_all2 ?R xs zs"
    by (rule list_all2_trans[rotated]) auto
  then show ?thesis by (simp add: never_restarted_def)
qed

lemma on_assistant_never_restarted:
  assumes "\<And>m. msg_id (f m) = msg_id m" and "\<And>m. streaming (f m) \<Longrightarrow> streaming m"
  shows "never_restarted prev (on_assistant aid f prev)"
  unfolding never_restarted_def on_assistant_def
  by (induction prev) (auto simp: assms)

lemma apply_frame_never_restarted:
  "apply_frame E aid data prev = Normal msgs \<or> apply_frame E aid data prev = Break msgs
     \<Longrightarrow> never_restarted prev msgs"
  by (auto simp: apply_frame_def apply_reasoning_step_def apply_chat_token_def
        apply_chat_done_def apply_final_result_def streaming_def
      intro!: on_assistant_never_restarted split: if_splits)

lemma process_line_never_restarted: "never_restarted prev (fst (process_line E aid line prev))"
proof (cases "process_line E aid line prev = (prev, False)")
  case True
  then show ?thesis by simp
next
  case False
  then obtain data where p: "json_parse E (drop 6 line) = Some data" and d: "is_data_line line"
    by (cases "json_parse E (drop 6 line)") (auto simp: process_line_def split: if_splits)
  show ?thesis
    using apply_frame_never_restarted[of E aid data prev] p d
    by (cases "apply_frame E aid data prev") (simp_all add: process_line_def)
qed

lemma process_lines_never_restarted: "never_restarted prev (process_lines E aid lines prev)"
proof (induction lines arbitrary: prev)
  case Nil
  show ?case by simp
next
  case (Cons l ls)
  have a: "never_restarted prev (fst (process_line E aid l prev))"
    by (rule process_line_never_restarted)
  show ?case
    using a Cons.IH[of "fst (process_line E aid l prev)"]
    by (auto simp: process_lines_Cons simp del: process_lines.simps intro: never_restarted_trans)
qed

lemma read_loop_never_restarted: "never_restarted (snd st) (snd (read_loop E aid reads st))"
proof (induction reads arbitrary: st)
  case Nil
  show ?case by simp
next
  case (Cons v vs)
  have "never_restarted (snd st) (snd (read_turn E aid st v))"
    by (simp add: read_turn_def process_lines_never_restarted split: prod.splits)
  with Cons.IH[of "read_turn E aid st v"] show ?case
    by (auto intro: never_restarted_trans)
qed

lemma try_stream_never_restarted: "never_restarted prev (snd (try_stream E aid net prev))"
  using read_loop_never_restarted[of "([], prev)" E aid]
  by (auto simp: try_stream_def Let_def split: fetched.splits option.splits prod.splits stream_end.splits)

lemma reconcile_never_restarted: "never_restarted prev (fst (reconcile E aid net prev))"
proof -
  have a: "never_restarted prev (snd (try_stream E aid net prev))"
    by (rule try_stream_never_restarted)
  have b: "never_restarted msgs (on_assistant aid (apply_failure m) msgs)" for msgs m
    by (rule on_assistant_never_restarted) (simp_all add: apply_failure_def streaming_def)
  show ?thesis
    using a b
    by (cases "try_stream E aid net prev")
       (auto simp: reconcile_def split: option.splits intro: never_restarted_trans)
qed

lemma never_restarted_take:
  "never_restarted (xs @ ys) zs \<Longrightarrow> never_restarted xs (take (length xs) zs)"
  by (auto simp: never_restarted_def list_all2_append1)

lemma handleSubmit_never_restarted:
  "never_restarted (messages st) (take (length (messages st)) (messages (handleSubmit E clk net st)))"
proof (cases "trim (inputValue st) = [] \<or> isLoading st")
  case True
  then show ?thesis by (simp add: handleSubmit_def)
next
  case False
  let ?started = "messages st @ [userMessage clk (inputValue st), assistantMessage clk]"
  have "never_restarted ?started (fst (reconcile E (msg_id (assistantMessage clk)) net ?started))"
    by (rule reconcile_never_restarted)
  then have "never_restarted (messages st)
      (take (length (messages st)) (fst (reconcile E (msg_id (assistantMessage clk)) net ?started)))"
    by (rule never_restarted_take)
  with False show ?thesis
    by (cases "reconcile E (msg_id (assistantMessage clk)) net ?started")
       (simp add: handleSubmit_def)
qed

section \<open>C1: an error frame\<close>

text \<open>A frame of type \<open>error\<close> changes no message and does not end the loop.\<close>

lemma error_frame_ignored:
  assumes "frame_type E line = Some ''error''"
  shows "process_line E aid line prev = (prev, False)"
proof -
  from assms obtain data where "is_data_line line" "json_parse E (drop 6 line) = Some data"
    "\<not> nullish data" "js_get data ''type'' = JStr ''error''"
    by (rule frame_typeD)
  then show ?thesis
    by (simp add: process_line_def apply_frame_def)
qed

text \<open>
  Claim C1, on the stream that consists of the one frame
  \<open>data: {"type":"error","content":"tool timeout"}\<close> and then ends. The \<open>Error\<close> thrown
  for the frame is caught by the \<open>catch\<close> of the inner \<open>try\<close>, which logs it; the handler
  of the outer \<open>try\<close>, which would write the message and clear the flag, is not reached.
  The assistant message ends with an empty content and is still streaming.
\<close>

theorem error_frame_leaves_message_streaming:
  \<open>messages (handleSubmit example_engine clock0
      (Response 200 (Some ([''data: {"type":"error","content":"tool timeout"}\<newline>\<newline>''], Done)))
      (fresh_chat ''why''))
   = [\<lparr>msg_id = ''7'', msg_type = User, content = JStr ''why'',
        sqlQuery = JUndefined, queryResults = JUndefined, columns = JUndefined,
        reasoningSteps = None, timestamp = 7, isStreaming = None\<rparr>,
      \<lparr>msg_id = ''9'', msg_type = Assistant, content = JStr [],
        sqlQuery = JUndefined, queryResults = JUndefined, columns = JUndefined,
        reasoningSteps = Some [], timestamp = 8, isStreaming = Some True\<rparr>]\<close>
  by code_simp

section \<open>C2: how long a message is streaming\<close>

lemma on_assistant_isStreaming:
  assumes "\<And>m. isStreaming (f m) = isStreaming m"
  shows "map isStreaming (on_assistant aid f prev) = map isStreaming prev"
  by (simp add: on_assistant_def assms)

lemma step_or_token_line:
  assumes "step_or_token E line"
  shows "map isStreaming (fst (process_line E aid line prev)) = map isStreaming prev"
proof -
  consider (step) "frame_type E line = Some ''reasoning_step''"
    | (token) "frame_type E line = Some ''chat_token''"
    | (blank) "\<not> is_data_line line"
    using assms by (auto simp: step_or_token_def)
  then show ?thesis
  proof cases
    case step
    then obtain data where "is_data_line line" "json_parse E (drop 6 line) = Some data"
      "\<not> nullish data" "js_get data ''type'' = JStr ''reasoning_step''"
      by (rule frame_typeD)
    then show ?thesis
      by (simp add: process_line_def apply_frame_def on_assistant_isStreaming
          apply_reasoning_step_def)
  next
    case token
    then obtain data where "is_data_line line" "json_parse E (drop 6 line) = Some data"
      "\<not> nullish data" "js_get data ''type'' = JStr ''chat_token''"
      by (rule frame_typeD)
    then show ?thesis
      by (simp add: process_line_def apply_frame_def on_assistant_isStreaming
          apply_chat_token_def)
  next
    case blank
    then show ?thesis by (simp add: process_line_not_data)
  qed
qed

lemma step_or_token_not_final: "step_or_token E line \<Longrightarrow> \<not> is_final E line"
  using is_final_data_line[of E line] by (auto simp: step_or_token_def is_final_def)

lemma step_or_token_quiet: "list_all (step_or_token E) ls \<Longrightarrow> quiet_after_final E ls"
  by (induction ls) (auto dest: step_or_token_not_final)

lemma step_or_token_all:
  "list_all (step_or_token E) ls \<Longrightarrow>
     map isStreaming (process_all E aid ls prev) = map isStreaming prev"
  by (induction ls arbitrary: prev) (simp_all add: step_or_token_line)

lemma stop_frame_line:
  assumes "frame_type E line = Some ''chat_done'' \<or> frame_type E line = Some ''final_result''"
  shows "list_all (\<lambda>m. msg_id m = aid \<longrightarrow> isStreaming m = Some False)
           (fst (process_line E aid line prev))"
proof -
  have a: "list_all (\<lambda>m. msg_id m = aid \<longrightarrow> isStreaming m = Some False) (on_assistant aid f prev)"
    if "\<And>m. isStreaming (f m) = Some False" for f
    using that by (induction prev) (simp_all add: on_assistant_def)
  from assms show ?thesis
  proof
    assume "frame_type E line = Some ''chat_done''"
    then obtain data where "is_data_line line" "json_parse E (drop 6 line) = Some data"
      "\<not> nullish data" "js_get data ''type'' = JStr ''chat_done''"
      by (rule frame_typeD)
    then show ?thesis
      by (simp add: process_line_def apply_frame_def a apply_chat_done_def)
  next
    assume "frame_type E line = Some ''final_result''"
    then obtain data where "is_data_line line" "json_parse E (drop 6 line) = Some data"
      "\<not> nullish data" "js_get data ''type'' = JStr ''final_result''"
      by (rule frame_typeD)
    then show ?thesis
      by (simp add: process_line_def apply_frame_def a apply_final_result_def)
  qed
qed

text \<open>
  Claim C2, as amended. While the complete lines of the stream are \<open>reasoning_step\<close> and
  \<open>chat_token\<close> frames (and lines that are no frames), the streaming flag of every
  message is what it was when the stream started, so the message in progress is still
  streaming; the \<open>chat_done\<close> or \<open>final_result\<close> frame that comes next sets the flag of the
  message in progress to false.
\<close>

theorem streaming_until_done_or_final:
  assumes "list_all (step_or_token E) (complete_lines (concat reads))"
    and "frame_type E line = Some ''chat_done'' \<or> frame_type E line = Some ''final_result''"
  shows "map isStreaming (snd (read_loop E aid reads ([], prev))) = map isStreaming prev
       \<and> list_all (\<lambda>m. msg_id m = aid \<longrightarrow> isStreaming m = Some False)
           (fst (process_line E aid line (snd (read_loop E aid reads ([], prev)))))"
proof -
  have "quiet_after_final E (complete_lines (concat reads))"
    using assms(1) by (rule step_or_token_quiet)
  then have "snd (read_loop E aid reads ([], prev))
      = process_all E aid (complete_lines (concat reads)) prev"
    by (rule read_loop_quiet)
  then have "map isStreaming (snd (read_loop E aid reads ([], prev))) = map isStreaming prev"
    using assms(1) by (simp add: step_or_token_all)
  moreover have "list_all (\<lambda>m. msg_id m = aid \<longrightarrow> isStreaming m = Some False)
           (fst (process_line E aid line (snd (read_loop E aid reads ([], prev)))))"
    using assms(2) by (rule stop_frame_line)
  ultimately show ?thesis by simp
qed

text \<open>
  The theorem at a stream of a reasoning step and a token, read in two pieces that cut a
  frame in the middle, followed by a \<open>chat_done\<close> frame: the message is streaming
  after the two reads and is not after the frame.
\<close>

theorem streaming_until_done_or_final_witness:
  \<open>list_all (step_or_token example_engine) (complete_lines (concat first_reads))
   \<and> frame_type example_engine ''data: {"type":"chat_done"}'' = Some ''chat_done''
   \<and> map isStreaming (snd (read_loop example_engine ''9'' first_reads
                           ([], [assistantMessage clock0])))
     = map isStreaming [assistantMessage clock0]
   \<and> map isStreaming [assistantMessage clock0] = [Some True]
   \<and> list_all (\<lambda>m. msg_id m = ''9'' \<longrightarrow> isStreaming m = Some False)
       (fst (process_line example_engine ''9'' ''data: {"type":"chat_done"}''
          (snd (read_loop example_engine ''9'' first_reads ([], [assistantMessage clock0])))))
   \<and> map isStreaming
       (fst (process_line example_engine ''9'' ''data: {"type":"chat_done"}''
          (snd (read_loop example_engine ''9'' first_reads ([], [assistantMessage clock0])))))
     = [Some False]\<close>
proof -
  have h: \<open>list_all (step_or_token example_engine) (complete_lines (concat first_reads))\<close>
    by code_simp
  have f: \<open>frame_type example_engine ''data: {"type":"chat_done"}'' = Some ''chat_done''\<close>
    by code_simp
  have s: "map isStreaming [assistantMessage clock0] = [Some True]"
    by (simp add: assistantMessage_def)
  have v: \<open>map isStreaming
       (fst (process_line example_engine ''9'' ''data: {"type":"chat_done"}''
          (snd (read_loop example_engine ''9'' first_reads ([], [assistantMessage clock0])))))
     = [Some False]\<close>
    by code_simp
  note t = streaming_until_done_or_final[OF h disjI1[OF f],
      where aid = "''9''" and prev = "[assistantMessage clock0]"]
  from h f t[THEN conjunct1] s t[THEN conjunct2] v show ?thesis
    by (intro conjI)
qed

text \<open>
  Claim C2 as stated fails: a stream of one token and a \<open>chat_done\<close> frame, with no
  \<open>final_result\<close> and no failure, leaves the assistant message not streaming.
\<close>

theorem chat_done_counterexample:
  \<open>map isStreaming (messages (handleSubmit example_engine clock0
      (Response 200 (Some ([''data: {"type":"chat_token","content":"Res"}\<newline>\<newline>data: {"type":"chat_done"}\<newline>\<newline>''], Done)))
      (fresh_chat ''why'')))
   = [None, Some False]\<close>
  by code_simp

section \<open>C3: which steps pass the validity filter\<close>

lemma typeof_string: "js_typeof v = ''string'' \<longleftrightarrow> (\<exists>t. v = JStr t)"
  by (cases v) simp_all

lemma js_get_defined_obj: "js_get v k \<noteq> JUndefined \<Longrightarrow> \<exists>kvs. v = JObj kvs"
  by (cases v) simp_all

text \<open>
  Claim C3, as amended. \<open>isValidStep\<close> accepts exactly the objects whose \<open>type\<close> is a
  non-empty string and that have \<open>tool\<close> and \<open>input\<close> when the type is \<open>action\<close>,
  \<open>content\<close> otherwise; the filter keeps the steps it accepts, in their order, and drops
  the others. The type is not compared with \<open>thought\<close>, \<open>action\<close> and \<open>observation\<close>: a
  step of any other named kind passes when it has a \<open>content\<close>.
\<close>

theorem isValidStep_accepts_any_named_kind:
  "(isValidStep step \<longleftrightarrow>
     (\<exists>kvs t. step = JObj kvs \<and> js_get step ''type'' = JStr t \<and> t \<noteq> [] \<and>
        (if t = ''action''
         then js_get step ''tool'' \<noteq> JUndefined \<and> js_get step ''input'' \<noteq> JUndefined
         else js_get step ''content'' \<noteq> JUndefined)))
   \<and> validReasoningSteps (before @ step # after)
       = validReasoningSteps before @ (if isValidStep step then [step] else [])
         @ validReasoningSteps after"
proof -
  have "isValidStep step \<longleftrightarrow>
     (\<exists>kvs t. step = JObj kvs \<and> js_get step ''type'' = JStr t \<and> t \<noteq> [] \<and>
        (if t = ''action''
         then js_get step ''tool'' \<noteq> JUndefined \<and> js_get step ''input'' \<noteq> JUndefined
         else js_get step ''content'' \<noteq> JUndefined))"
  proof (cases "\<exists>t. js_get step ''type'' = JStr t")
    case True
    then obtain t where t: "js_get step ''type'' = JStr t" by blast
    then obtain kvs where k: "step = JObj kvs"
      using js_get_defined_obj[of step "''type''"] by auto
    show ?thesis using t unfolding k by (simp add: isValidStep_def)
  next
    case False
    then show ?thesis by (auto simp: isValidStep_def typeof_string)
  qed
  moreover have "validReasoningSteps (before @ step # after)
       = validReasoningSteps before @ (if isValidStep step then [step] else [])
         @ validReasoningSteps after"
    by (simp add: validReasoningSteps_def)
  ultimately show ?thesis by (rule conjI)
qed

text \<open>
  The theorem at an action step with an empty input, which is kept, at a step of the
  kind \<open>plan\<close>, which is kept, and at a step with no kind, which is dropped.
\<close>

theorem isValidStep_accepts_any_named_kind_witness:
  "isValidStep (JObj [(''type'', JStr ''action''), (''tool'', JStr ''sql''), (''input'', JStr [])])
   \<and> isValidStep (JObj [(''type'', JStr ''plan''), (''content'', JStr ''x'')])
   \<and> validReasoningSteps
        ([JObj [(''type'', JStr ''action''), (''tool'', JStr ''sql''), (''input'', JStr [])]]
         @ JObj [(''content'', JStr ''y'')]
         # [JObj [(''type'', JStr ''plan''), (''content'', JStr ''x'')]])
      = [JObj [(''type'', JStr ''action''), (''tool'', JStr ''sql''), (''input'', JStr [])],
         JObj [(''type'', JStr ''plan''), (''content'', JStr ''x'')]]"
  using isValidStep_accepts_any_named_kind[where
      step = "JObj [(''type'', JStr ''action''), (''tool'', JStr ''sql''), (''input'', JStr [])]"
      and before = "[]" and after = "[]"]
    isValidStep_accepts_any_named_kind[where
      step = "JObj [(''type'', JStr ''plan''), (''content'', JStr ''x'')]"
      and before = "[]" and after = "[]"]
    isValidStep_accepts_any_named_kind[where
      step = "JObj [(''content'', JStr ''y'')]"
      and before = "[JObj [(''type'', JStr ''action''), (''tool'', JStr ''sql''), (''input'', JStr [])]]"
      and after = "[JObj [(''type'', JStr ''plan''), (''content'', JStr ''x'')]]"]
  by (simp add: validReasoningSteps_def)

text \<open>
  Claim C3 as stated fails: \<open>plan\<close> is none of the three kinds, and the filter keeps the
  step \<open>{type: 'plan', content: 'x'}\<close>.
\<close>

theorem unknown_kind_counterexample:
  "\<not> known_kind ''plan''
   \<and> validReasoningSteps [JObj [(''type'', JStr ''plan''), (''content'', JStr ''x'')]]
       = [JObj [(''type'', JStr ''plan''), (''content'', JStr ''x'')]]"
  by (simp add: known_kind_def validReasoningSteps_def isValidStep_def)

section \<open>C4: a frame that does not parse\<close>

lemma corrupt_line:
  assumes "is_data_line line" and "json_parse E (drop 6 line) = None"
  shows "process_line E aid line prev = (prev, False)"
  using assms by (simp add: process_line_def)

lemma process_lines_skip:
  assumes "\<And>prev. process_line E aid line prev = (prev, False)"
  shows "process_lines E aid (before @ line # after) prev = process_lines E aid (before @ after) prev"
proof (induction before arbitrary: prev)
  case Nil
  show ?case by (simp add: assms)
next
  case (Cons l ls)
  show ?case
    by (cases "process_line E aid l prev") (simp add: Cons.IH split: bool.splits)
qed

lemma split_nl_line: "CHR 0x0A \<notin> set line \<Longrightarrow> split_nl (line @ [CHR 0x0A]) = [line, []]"
  by (induction line) auto

lemma read_turn_corrupt:
  assumes "is_data_line line" and "json_parse E (drop 6 line) = None" and "CHR 0x0A \<notin> set line"
  shows "read_turn E aid ([], prev) (line @ [CHR 0x0A]) = ([], prev)"
  using assms
  by (simp add: read_turn_def next_lines_def split_nl_line process_line_def)

lemma read_loop_corrupt:
  assumes "is_data_line line" and "json_parse E (drop 6 line) = None" and "CHR 0x0A \<notin> set line"
    and "fst (read_loop E aid reads st) = []"
  shows "read_loop E aid (reads @ (line @ [CHR 0x0A]) # later) st = read_loop E aid (reads @ later) st"
proof -
  obtain prev where s: "read_loop E aid reads st = ([], prev)"
    using assms(4) by (cases "read_loop E aid reads st") simp
  show ?thesis
    using read_turn_corrupt[OF assms(1-3), of aid prev]
    by (simp add: read_loop_append s)
qed

text \<open>
  Claim C4. A frame whose payload \<open>JSON.parse\<close> rejects changes no message and does not
  end the loop; a batch of lines gives the same messages with it as without it, whatever
  was applied before it and whatever follows it; and so does a whole sequence of batches
  (\<open>read_loop_batches\<close>: the reading loop folds \<open>process_lines\<close> over the batches of
  its reads). When the frame arrives as a read of its own, at a moment when the buffer is
  empty, the reading loop ends in the same state as if the read had not come.
\<close>

theorem corrupt_frame_skipped:
  assumes "is_data_line line" and "json_parse E (drop 6 line) = None"
  shows "process_line E aid line prev = (prev, False)
       \<and> process_lines E aid (before @ line # after) prev
           = process_lines E aid (before @ after) prev
       \<and> foldl (\<lambda>msgs lines. process_lines E aid lines msgs) prev
             (earlier @ (before @ line # after) # later)
           = foldl (\<lambda>msgs lines. process_lines E aid lines msgs) prev
             (earlier @ (before @ after) # later)
       \<and> (CHR 0x0A \<notin> set line \<and> fst (read_loop E aid reads st) = [] \<longrightarrow>
            read_loop E aid (reads @ (line @ [CHR 0x0A]) # more_reads) st
              = read_loop E aid (reads @ more_reads) st)"
proof -
  have skip: "process_line E aid line p = (p, False)" for p
    using assms by (rule corrupt_line)
  have "process_lines E aid (before @ line # after) p = process_lines E aid (before @ after) p" for p
    by (rule process_lines_skip) (rule skip)
  then show ?thesis
    using read_loop_corrupt[OF assms, where reads = reads and aid = aid and st = st and later = more_reads]
    by (simp add: skip)
qed

text \<open>
  The theorem at the frame \<open>data: {not valid json}\<close> between two tokens, first as a
  line of one batch, then as the second of three reads: the content is \<open>ab\<close>, as
  without it.
\<close>

theorem corrupt_frame_skipped_witness:
  \<open>json_parse example_engine (drop 6 ''data: {not valid json}'') = None
   \<and> process_lines example_engine ''9''
        [''data: {"type":"chat_token","content":"a"}'', ''data: {not valid json}'',
         ''data: {"type":"chat_token","content":"b"}''] [assistantMessage clock0]
       = process_lines example_engine ''9''
        [''data: {"type":"chat_token","content":"a"}'',
         ''data: {"type":"chat_token","content":"b"}''] [assistantMessage clock0]
   \<and> map content (process_lines example_engine ''9''
        [''data: {"type":"chat_token","content":"a"}'', ''data: {not valid json}'',
         ''data: {"type":"chat_token","content":"b"}''] [assistantMessage clock0])
       = [JStr ''ab'']
   \<and> read_loop example_engine ''9''
        ([''data: {"type":"chat_token","content":"a"}\<newline>'']
         @ (''data: {not valid json}'' @ [CHR 0x0A])
         # [''data: {"type":"chat_token","content":"b"}\<newline>''])
        ([], [assistantMessage clock0])
       = read_loop example_engine ''9''
        ([''data: {"type":"chat_token","content":"a"}\<newline>'']
         @ [''data: {"type":"chat_token","content":"b"}\<newline>''])
        ([], [assistantMessage clock0])
   \<and> map content (snd (read_loop example_engine ''9''
        ([''data: {"type":"chat_token","content":"a"}\<newline>'']
         @ (''data: {not valid json}'' @ [CHR 0x0A])
         # [''data: {"type":"chat_token","content":"b"}\<newline>''])
        ([], [assistantMessage clock0])))
       = [JStr ''ab'']\<close>
proof -
  have d: \<open>is_data_line ''data: {not valid json}''\<close>
    by (simp add: is_data_line_def)
  have p: \<open>json_parse example_engine (drop 6 ''data: {not valid json}'') = None\<close>
    by code_simp
  have v: \<open>map content (process_lines example_engine ''9''
        [''data: {"type":"chat_token","content":"a"}'', ''data: {not valid json}'',
         ''data: {"type":"chat_token","content":"b"}''] [assistantMessage clock0])
       = [JStr ''ab'']\<close>
    by code_simp
  have n: \<open>CHR 0x0A \<notin> set ''data: {not valid json}''\<close>
    by simp
  have b: \<open>fst (read_loop example_engine ''9''
        [''data: {"type":"chat_token","content":"a"}\<newline>''] ([], [assistantMessage clock0])) = []\<close>
    by code_simp
  have w: \<open>map content (snd (read_loop example_engine ''9''
        ([''data: {"type":"chat_token","content":"a"}\<newline>'']
         @ (''data: {not valid json}'' @ [CHR 0x0A])
         # [''data: {"type":"chat_token","content":"b"}\<newline>''])
        ([], [assistantMessage clock0])))
       = [JStr ''ab'']\<close>
    by code_simp
  note t = corrupt_frame_skipped[OF d p, where aid = "''9''" and prev = "[assistantMessage clock0]"
        and before = \<open>[''data: {"type":"chat_token","content":"a"}'']\<close>
        and after = \<open>[''data: {"type":"chat_token","content":"b"}'']\<close>
        and reads = \<open>[''data: {"type":"chat_token","content":"a"}\<newline>'']\<close>
        and st = "([], [assistantMessage clock0])"
        and more_reads = \<open>[''data: {"type":"chat_token","content":"b"}\<newline>'']\<close>]
  note t2 = t[THEN conjunct2, THEN conjunct1]
  note t3 = t[THEN conjunct2, THEN conjunct2, THEN conjunct2]
  have t4: \<open>read_loop example_engine ''9''
        ([''data: {"type":"chat_token","content":"a"}\<newline>'']
         @ (''data: {not valid json}'' @ [CHR 0x0A])
         # [''data: {"type":"chat_token","content":"b"}\<newline>''])
        ([], [assistantMessage clock0])
       = read_loop example_engine ''9''
        ([''data: {"type":"chat_token","content":"a"}\<newline>'']
         @ [''data: {"type":"chat_token","content":"b"}\<newline>''])
        ([], [assistantMessage clock0])\<close>
    by (rule mp[OF t3 conjI[OF n b]])
  from t2 have t2': \<open>process_lines example_engine ''9''
        [''data: {"type":"chat_token","content":"a"}'', ''data: {not valid json}'',
         ''data: {"type":"chat_token","content":"b"}''] [assistantMessage clock0]
       = process_lines example_engine ''9''
        [''data: {"type":"chat_token","content":"a"}'',
         ''data: {"type":"chat_token","content":"b"}''] [assistantMessage clock0]\<close>
    by (simp only: append.simps)
  from p t2' v t4 w show ?thesis
    by (intro conjI)
qed

section \<open>C5: the buffer and the partition of the stream into reads\<close>

text \<open>
  What holds for every stream. Take two partitions of the same text into reads. The
  lines that the loop hands to the frame handler are, in order, the complete lines of the
  text under both, and the buffer holds the partial line after the last newline under
  both. When no frame follows a \<open>final_result\<close> frame, the messages are the same under
  both: they are what processing every complete line in turn gives.
\<close>

lemma buffering_independent_of_reads:
  assumes "concat reads = concat reads'"
  shows "concat (batches [] reads) = complete_lines (concat reads)
       \<and> concat (batches [] reads') = concat (batches [] reads)
       \<and> fst (read_loop E aid reads ([], prev)) = partial_line (concat reads)
       \<and> fst (read_loop E aid reads' ([], prev)) = fst (read_loop E aid reads ([], prev))
       \<and> (quiet_after_final E (complete_lines (concat reads)) \<longrightarrow>
            snd (read_loop E aid reads ([], prev))
              = process_all E aid (complete_lines (concat reads)) prev
            \<and> snd (read_loop E aid reads' ([], prev)) = snd (read_loop E aid reads ([], prev)))"
  using concat_batches[of "[]" reads] read_loop_buffer[of "[]" E aid reads prev]
    read_loop_quiet[of E reads aid prev]
    concat_batches[of "[]" reads'] read_loop_buffer[of "[]" E aid reads' prev]
    read_loop_quiet[of E reads' aid prev] assms
  by simp

text \<open>The lemma at the example stream, read in two pieces and read in one.\<close>

lemma buffering_independent_of_reads_example:
  "concat two_reads = concat one_read
   \<and> quiet_after_final example_engine (complete_lines (concat two_reads))
   \<and> concat (batches [] one_read) = concat (batches [] two_reads)
   \<and> fst (read_loop example_engine ''9'' one_read ([], [assistantMessage clock0]))
       = fst (read_loop example_engine ''9'' two_reads ([], [assistantMessage clock0]))
   \<and> snd (read_loop example_engine ''9'' one_read ([], [assistantMessage clock0]))
       = snd (read_loop example_engine ''9'' two_reads ([], [assistantMessage clock0]))
   \<and> length (complete_lines (concat two_reads)) = 10"
proof -
  have c: "concat two_reads = concat one_read"
    by (simp add: one_read_def)
  have q: "quiet_after_final example_engine (complete_lines (concat two_reads))"
    by code_simp
  have n: "length (complete_lines (concat two_reads)) = 10"
    by code_simp
  show ?thesis
    using buffering_independent_of_reads[OF c, of example_engine "''9''" "[assistantMessage clock0]"] c q n
    by simp
qed

text \<open>
  Claim C5, on a stream in which a token follows the final result: the sequence of
  processed frames depends on how the reads split it. The two partitions have the same
  text, and the loop hands the same two lines to the frame handler under both. Read in
  one piece, the \<open>break\<close> after the final result leaves the \<open>for\<close> loop over the lines of
  that read, the token is skipped and the content is \<open>a\<close>. Read in two pieces, the
  \<open>while\<close> loop goes on to the next read, the token is applied and the content is \<open>ab\<close>.
\<close>

theorem late_token_depends_on_reads:
  "concat late_token_one_read = concat late_token_two_reads
   \<and> concat (batches [] late_token_one_read) = concat (batches [] late_token_two_reads)
   \<and> length (concat (batches [] late_token_one_read)) = 2
   \<and> map content (snd (read_loop example_engine ''9'' late_token_one_read
                       ([], [assistantMessage clock0]))) = [JStr ''a'']
   \<and> map content (snd (read_loop example_engine ''9'' late_token_two_reads
                       ([], [assistantMessage clock0]))) = [JStr ''ab'']"
  by code_simp

section \<open>C6: the final result\<close>

text \<open>
  Claim C6, as amended. A \<open>final_result\<close> frame gives the message in progress the
  frame's \<open>summary\<close> as content when the summary is truthy (a non-empty string), and the
  frame's \<open>answer\<close> otherwise; it takes the query, the rows and the columns from the
  frame, the query being \<open>undefined\<close> when the frame has none; it sets the streaming flag
  to false; it leaves every other message as it was, and it ends the batch.
\<close>

theorem final_result_applied:
  assumes "is_data_line line" and "json_parse E (drop 6 line) = Some data"
    and "js_get data ''type'' = JStr ''final_result''"
  shows "process_line E aid line prev =
           (map (\<lambda>msg. if msg_id msg = aid
                        then msg\<lparr>content := (if truthy (js_get data ''summary'')
                                               then js_get data ''summary''
                                               else js_get data ''answer''),
                                 sqlQuery := js_get data ''sql_query'',
                                 queryResults := js_get data ''query_results'',
                                 columns := js_get data ''columns'',
                                 isStreaming := Some False\<rparr>
                        else msg) prev, True)
         \<and> (\<forall>kvs. data = JObj kvs \<and> map_of kvs ''sql_query'' = None
                \<longrightarrow> js_get data ''sql_query'' = JUndefined)"
proof -
  from assms(3) have "\<not> nullish data" by (auto simp: nullish_def)
  with assms show ?thesis
    by (auto simp: process_line_def apply_frame_def on_assistant_def apply_final_result_def js_or_def)
qed

text \<open>The theorem at a frame with a summary, rows and columns, and no query.\<close>

theorem final_result_applied_witness:
  \<open>json_parse example_engine
      (drop 6 ''data: {"type":"final_result","summary":"Result is 1","query_results":[[1]],"columns":["x"]}'')
    = Some (JObj [(''type'', JStr ''final_result''), (''summary'', JStr ''Result is 1''),
                  (''query_results'', JArr [JArr [JNum 1]]), (''columns'', JArr [JStr ''x''])])
   \<and> process_line example_engine ''9''
      ''data: {"type":"final_result","summary":"Result is 1","query_results":[[1]],"columns":["x"]}''
      [assistantMessage clock0]
    = ([\<lparr>msg_id = ''9'', msg_type = Assistant, content = JStr ''Result is 1'',
         sqlQuery = JUndefined, queryResults = JArr [JArr [JNum 1]], columns = JArr [JStr ''x''],
         reasoningSteps = Some [], timestamp = 8, isStreaming = Some False\<rparr>], True)
   \<and> js_get (JObj [(''type'', JStr ''final_result''), (''summary'', JStr ''Result is 1''),
                  (''query_results'', JArr [JArr [JNum 1]]), (''columns'', JArr [JStr ''x''])])
        ''sql_query'' = JUndefined\<close>
proof -
  have d: \<open>is_data_line ''data: {"type":"final_result","summary":"Result is 1","query_results":[[1]],"columns":["x"]}''\<close>
    by (simp add: is_data_line_def)
  have p: \<open>json_parse example_engine
      (drop 6 ''data: {"type":"final_result","summary":"Result is 1","query_results":[[1]],"columns":["x"]}'')
    = Some (JObj [(''type'', JStr ''final_result''), (''summary'', JStr ''Result is 1''),
                  (''query_results'', JArr [JArr [JNum 1]]), (''columns'', JArr [JStr ''x''])])\<close>
    by code_simp
  have ty: \<open>js_get (JObj [(''type'', JStr ''final_result''), (''summary'', JStr ''Result is 1''),
                  (''query_results'', JArr [JArr [JNum 1]]), (''columns'', JArr [JStr ''x''])])
        ''type'' = JStr ''final_result''\<close>
    by simp
  have a: "msg_id (assistantMessage clock0) = ''9''"
    by code_simp
  note t = final_result_applied[OF d p ty, where aid = "''9''" and prev = "[assistantMessage clock0]"]
  have q: \<open>js_get (JObj [(''type'', JStr ''final_result''), (''summary'', JStr ''Result is 1''),
                  (''query_results'', JArr [JArr [JNum 1]]), (''columns'', JArr [JStr ''x''])])
        ''sql_query'' = JUndefined\<close>
    using t[THEN conjunct2] by simp
  have r: \<open>process_line example_engine ''9''
      ''data: {"type":"final_result","summary":"Result is 1","query_results":[[1]],"columns":["x"]}''
      [assistantMessage clock0]
    = ([\<lparr>msg_id = ''9'', msg_type = Assistant, content = JStr ''Result is 1'',
         sqlQuery = JUndefined, queryResults = JArr [JArr [JNum 1]], columns = JArr [JStr ''x''],
         reasoningSteps = Some [], timestamp = 8, isStreaming = Some False\<rparr>], True)\<close>
    using t[THEN conjunct1] a by (simp add: assistantMessage_def clock0_def)
  from p r q show ?thesis
    by (intro conjI)
qed

text \<open>
  Claim C6 as stated fails at a frame whose summary is the empty string: the content
  becomes the frame's \<open>answer\<close>, not its summary.
\<close>

theorem empty_summary_counterexample:
  \<open>json_parse example_engine
      (drop 6 ''data: {"type":"final_result","summary":"","answer":"Result is 1"}'')
    = Some (JObj [(''type'', JStr ''final_result''), (''summary'', JStr []),
                  (''answer'', JStr ''Result is 1'')])
   \<and> map content (fst (process_line example_engine ''9''
        ''data: {"type":"final_result","summary":"","answer":"Result is 1"}''
        [assistantMessage clock0]))
     = [JStr ''Result is 1'']\<close>
  by code_simp

section \<open>C7: the streaming flag never comes back\<close>

text \<open>
  Claim C7. Whatever the reads and whatever state the loop is in, every message that is
  not streaming after some reads is not streaming after any further reads; nor after the
  whole request, its failure handler included; nor, for the messages of earlier requests,
  after a later call of \<open>handleSubmit\<close>.
\<close>

theorem streaming_never_restarts:
  "never_restarted (snd (read_loop E aid reads st)) (snd (read_loop E aid (reads @ later) st))
   \<and> never_restarted prev (fst (reconcile E aid net prev))
   \<and> never_restarted (messages cs) (take (length (messages cs)) (messages (handleSubmit E clk net cs)))"
  using read_loop_never_restarted[of "read_loop E aid reads st" E aid later]
    reconcile_never_restarted[of prev E aid net]
    handleSubmit_never_restarted[of cs E clk net]
  by (simp add: read_loop_append)

text \<open>
  The theorem at the example stream followed by a token that comes too late (the message
  is not streaming at the end of the stream and not after the late token), at a request
  that fails with status 500, and at a second question put after the first was answered:
  the two messages of the first question are not streaming before and not after.
\<close>

theorem streaming_never_restarts_witness:
  "never_restarted
     (snd (read_loop example_engine ''9'' two_reads ([], [assistantMessage clock0])))
     (snd (read_loop example_engine ''9'' (two_reads @ late_token_two_reads)
             ([], [assistantMessage clock0])))
   \<and> map streaming (snd (read_loop example_engine ''9'' two_reads ([], [assistantMessage clock0])))
       = [False]
   \<and> map streaming (snd (read_loop example_engine ''9'' (two_reads @ late_token_two_reads)
             ([], [assistantMessage clock0])))
       = [False]
   \<and> never_restarted [assistantMessage clock0]
       (fst (reconcile example_engine ''9'' (Response 500 None) [assistantMessage clock0]))
   \<and> map streaming (fst (reconcile example_engine ''9'' (Response 500 None) [assistantMessage clock0]))
       = [False]
   \<and> never_restarted
       (messages ((handleSubmit example_engine clock0 (Response 200 (Some (two_reads, Done)))
                    (fresh_chat ''why''))\<lparr>inputValue := ''more''\<rparr>))
       (take (length (messages ((handleSubmit example_engine clock0
                    (Response 200 (Some (two_reads, Done))) (fresh_chat ''why''))\<lparr>inputValue := ''more''\<rparr>)))
          (messages (handleSubmit example_engine clock1 (Response 200 (Some (first_reads, Done)))
             ((handleSubmit example_engine clock0 (Response 200 (Some (two_reads, Done)))
                    (fresh_chat ''why''))\<lparr>inputValue := ''more''\<rparr>))))
   \<and> map streaming
          (messages (handleSubmit example_engine clock1 (Response 200 (Some (first_reads, Done)))
             ((handleSubmit example_engine clock0 (Response 200 (Some (two_reads, Done)))
                    (fresh_chat ''why''))\<lparr>inputValue := ''more''\<rparr>)))
       = [False, False, False, True]"
proof -
  have a: "map streaming (snd (read_loop example_engine ''9'' two_reads ([], [assistantMessage clock0])))
       = [False]"
    by code_simp
  have b: "map streaming (snd (read_loop example_engine ''9'' (two_reads @ late_token_two_reads)
             ([], [assistantMessage clock0])))
       = [False]"
    by code_simp
  have c: "map streaming (fst (reconcile example_engine ''9'' (Response 500 None) [assistantMessage clock0]))
       = [False]"
    by code_simp
  have d: "map streaming
          (messages (handleSubmit example_engine clock1 (Response 200 (Some (first_reads, Done)))
             ((handleSubmit example_engine clock0 (Response 200 (Some (two_reads, Done)))
                    (fresh_chat ''why''))\<lparr>inputValue := ''more''\<rparr>)))
       = [False, False, False, True]"
    by code_simp
  note t = streaming_never_restarts[where E = example_engine and aid = "''9''" and reads = two_reads
      and st = "([], [assistantMessage clock0])" and later = late_token_two_reads
      and prev = "[assistantMessage clock0]" and net = "Response 500 None"]
  note u = streaming_never_restarts[where E = example_engine
      and net = "Response 200 (Some (first_reads, Done))"
      and cs = "(handleSubmit example_engine clock0 (Response 200 (Some (two_reads, Done)))
                    (fresh_chat ''why''))\<lparr>inputValue := ''more''\<rparr>"
      and clk = clock1]
  note t1 = t[THEN conjunct1]
  note t2 = t[THEN conjunct2, THEN conjunct1]
  note t3 = u[THEN conjunct2, THEN conjunct2]
  show ?thesis
    apply (intro conjI)
          apply (rule t1)
         apply (rule a)
        apply (rule b)
       apply (rule t2)
      apply (rule c)
     apply (rule t3)
    apply (rule d)
    done
qed

section \<open>C8: replaying a stream\<close>














section \<open>C9: restoring the history at startup\<close>

text \<open>
  Claim C9, as amended. A stored history that is not the empty string and that
  \<open>JSON.parse\<close> rejects is removed from the storage, and the chat starts with no
  message. Loading never throws out of the startup path: every statement of the effect
  that can throw stands in the \<open>try\<close> block, and whatever error the block raises (the parsed
  value is no array, an element of it is \<open>null\<close>, a timestamp cannot be converted) the
  \<open>catch\<close> takes it and the effect ends as for a history that does not parse. For stored
  text that restores, the effect sets the messages and their count and leaves the
  storage as it is. An empty string in the storage is taken for no history: it is
  neither parsed nor removed. In every case, from every state, the effect ends by marking
  the initial load complete.
\<close>

theorem load_history_recovers:
  assumes "savedMessages \<noteq> []" and "json_parse E savedMessages = None"
  shows "load_history E (mount (Some savedMessages))
           = \<lparr>stored = None, restored = [], prevMessageCount = 0, initialLoadComplete = True\<rparr>
       \<and> initialLoadComplete (load_history E st)
       \<and> (\<forall>s err. s \<noteq> [] \<and> parse_history E s = Inl err \<longrightarrow>
             load_history E (mount (Some s))
               = \<lparr>stored = None, restored = [], prevMessageCount = 0, initialLoadComplete = True\<rparr>)
       \<and> (\<forall>s msgs. s \<noteq> [] \<and> parse_history E s = Inr msgs \<longrightarrow>
             load_history E (mount (Some s))
               = \<lparr>stored = Some s, restored = msgs, prevMessageCount = length msgs,
                  initialLoadComplete = True\<rparr>)
       \<and> load_history E (mount (Some []))
           = \<lparr>stored = Some [], restored = [], prevMessageCount = 0, initialLoadComplete = True\<rparr>
       \<and> load_history E (mount None)
           = \<lparr>stored = None, restored = [], prevMessageCount = 0, initialLoadComplete = True\<rparr>"
proof -
  from assms(2) have "parse_history E savedMessages = Inl SyntaxError"
    by (simp add: parse_history_def)
  with assms(1) show ?thesis
    by (simp add: load_history_def mount_def Let_def)
qed

text \<open>
  The theorem at a stored history that was cut off in the middle of a string, at one that
  is an object and not an array, at one whose timestamp is an object with an own
  \<open>toString\<close>, and at one that restores.
\<close>

theorem load_history_recovers_witness:
  \<open>json_parse example_engine ''[{"id":"1","type":"user","content":"hi'' = None
   \<and> load_history example_engine (mount (Some ''[{"id":"1","type":"user","content":"hi''))
       = \<lparr>stored = None, restored = [], prevMessageCount = 0, initialLoadComplete = True\<rparr>
   \<and> parse_history example_engine ''{"id":"1"}'' = Inl NotCallable
   \<and> load_history example_engine (mount (Some ''{"id":"1"}''))
       = \<lparr>stored = None, restored = [], prevMessageCount = 0, initialLoadComplete = True\<rparr>
   \<and> parse_history example_engine ''[{"id":"1","timestamp":{"toString":1,"valueOf":1}}]''
       = Inl NotPrimitive
   \<and> load_history example_engine
         (mount (Some ''[{"id":"1","timestamp":{"toString":1,"valueOf":1}}]''))
       = \<lparr>stored = None, restored = [], prevMessageCount = 0, initialLoadComplete = True\<rparr>
   \<and> parse_history example_engine ''[{"id":"1","timestamp":"t"}]''
       = Inr [JObj [(''id'', JStr ''1''), (''timestamp'', JDate (JStr ''t''))]]
   \<and> load_history example_engine (mount (Some ''[{"id":"1","timestamp":"t"}]''))
       = \<lparr>stored = Some ''[{"id":"1","timestamp":"t"}]'',
          restored = [JObj [(''id'', JStr ''1''), (''timestamp'', JDate (JStr ''t''))]],
          prevMessageCount = length [JObj [(''id'', JStr ''1''), (''timestamp'', JDate (JStr ''t''))]],
          initialLoadComplete = True\<rparr>
   \<and> initialLoadComplete (load_history example_engine (mount None))\<close>
proof -
  have p: \<open>json_parse example_engine ''[{"id":"1","type":"user","content":"hi'' = None\<close>
    by code_simp
  have n: \<open>''[{"id":"1","type":"user","content":"hi'' \<noteq> []\<close>
    by simp
  have o: \<open>parse_history example_engine ''{"id":"1"}'' = Inl NotCallable\<close>
    by code_simp
  have on: \<open>''{"id":"1"}'' \<noteq> []\<close>
    by simp
  have u: \<open>parse_history example_engine ''[{"id":"1","timestamp":{"toString":1,"valueOf":1}}]''
       = Inl NotPrimitive\<close>
    by code_simp
  have un: \<open>''[{"id":"1","timestamp":{"toString":1,"valueOf":1}}]'' \<noteq> []\<close>
    by simp
  have g: \<open>parse_history example_engine ''[{"id":"1","timestamp":"t"}]''
       = Inr [JObj [(''id'', JStr ''1''), (''timestamp'', JDate (JStr ''t''))]]\<close>
    by code_simp
  have gn: \<open>''[{"id":"1","timestamp":"t"}]'' \<noteq> []\<close>
    by simp
  note t = load_history_recovers[OF n p, where st = "mount None"]
  note t1 = t[THEN conjunct1]
  note t2 = t[THEN conjunct2, THEN conjunct1]
  note t3 = t[THEN conjunct2, THEN conjunct2, THEN conjunct1, THEN spec, THEN spec,
      THEN mp, OF conjI[OF on o]]
  note t3' = t[THEN conjunct2, THEN conjunct2, THEN conjunct1, THEN spec, THEN spec,
      THEN mp, OF conjI[OF un u]]
  note t4 = t[THEN conjunct2, THEN conjunct2, THEN conjunct2, THEN conjunct1, THEN spec, THEN spec,
      THEN mp, OF conjI[OF gn g]]
  from p t1 o t3 u t3' g t4 t2 show ?thesis
    by (intro conjI)
qed

text \<open>
  Claim C9 as stated fails at the empty string: it does not parse as JSON, and the entry
  is still in the storage after the effect.
\<close>

theorem empty_entry_counterexample:
  "json_parse example_engine [] = None
   \<and> stored (load_history example_engine (mount (Some []))) = Some []"
  by code_simp

section \<open>C10: a frame of an unknown type\<close>

text \<open>
  Claim C10. A line that carries parsed JSON whose \<open>type\<close> is none of
  \<open>reasoning_step\<close>, \<open>chat_token\<close>, \<open>chat_done\<close>, \<open>final_result\<close> and \<open>error\<close> leaves
  the whole list of messages as it was, does not leave the loop, and the lines after it
  are processed as if it had not been there.
\<close>

theorem unknown_frame_type_ignored:
  assumes "is_data_line line" and "json_parse E (drop 6 line) = Some data"
    and "js_get data ''type'' \<noteq> JStr ''reasoning_step''"
    and "js_get data ''type'' \<noteq> JStr ''chat_token''"
    and "js_get data ''type'' \<noteq> JStr ''chat_done''"
    and "js_get data ''type'' \<noteq> JStr ''final_result''"
    and "js_get data ''type'' \<noteq> JStr ''error''"
  shows "process_line E aid line prev = (prev, False)
         \<and> process_lines E aid (line # lines) prev = process_lines E aid lines prev"
  using assms by (simp add: process_line_def apply_frame_def)

text \<open>The theorem at a frame of the type \<open>heartbeat\<close>.\<close>

theorem unknown_frame_type_ignored_witness:
  \<open>process_line example_engine ''9'' ''data: {"type":"heartbeat","content":"x"}'' [assistantMessage clock0]
     = ([assistantMessage clock0], False)
   \<and> parse_json ''{"type":"heartbeat","content":"x"}''
     = Some (JObj [(''type'', JStr ''heartbeat''), (''content'', JStr ''x'')])\<close>
proof -
  have p: \<open>json_parse example_engine (drop 6 ''data: {"type":"heartbeat","content":"x"}'')
      = Some (JObj [(''type'', JStr ''heartbeat''), (''content'', JStr ''x'')])\<close>
    by code_simp
  have d: \<open>is_data_line ''data: {"type":"heartbeat","content":"x"}''\<close>
    by (simp add: is_data_line_def)
  have q: \<open>parse_json ''{"type":"heartbeat","content":"x"}''
     = Some (JObj [(''type'', JStr ''heartbeat''), (''content'', JStr ''x'')])\<close>
    by code_simp
  show ?thesis
    using unknown_frame_type_ignored[OF d p, of "''9''" "[assistantMessage clock0]" "[]"] q
    by simp
qed

end
